theory Spec2Isabelle
  imports Complex_Main "HOL-Library.Word"
begin

section \<open>Bytes and buffers\<close>

type_synonym byte = "8 word"

text \<open>
  A Node \<open>Buffer\<close> is modelled by the list of its bytes. \<open>Buffer.from([v, ...])\<close> stores
  every array element modulo 256, which is what \<open>of_nat\<close> into \<open>8 word\<close> does.
  \<open>buf.subarray(start, end)\<close> clamps both indices to the length of the buffer.
\<close>

definition subarray :: "'a list \<Rightarrow> nat \<Rightarrow> nat \<Rightarrow> 'a list" where
  "subarray buf start end = take (end - start) (drop start buf)"

section \<open>TLV8 encoder\<close>

definition TLV8_MAX_FRAGMENT_SIZE :: nat where
  "TLV8_MAX_FRAGMENT_SIZE = 255"

text \<open>
  A \<open>TLV8Item\<close> is a type and a data buffer. The types are the component type
  identifiers of the pairing protocol (\<open>PairingDataComponentType\<close>, \<open>0x00\<close> to \<open>0xff\<close>), so
  a type is a byte.
\<close>

record TLV8Item =
  type :: byte
  data :: "byte list"

text \<open>
  The inner \<open>while (offset < data.length)\<close> loop of \<open>encodeTLV8\<close>: every round pushes the
  two-byte header and the payload slice onto \<open>chunks\<close> and advances \<open>offset\<close>.
\<close>

function encodeTLV8_while :: "byte \<Rightarrow> byte list \<Rightarrow> nat \<Rightarrow> byte list list \<Rightarrow> byte list list" where
  "encodeTLV8_while ty dat offset chunks =
     (if offset < length dat then
        (let fragmentLength = min TLV8_MAX_FRAGMENT_SIZE (length dat - offset) in
           encodeTLV8_while ty dat (offset + fragmentLength)
             (chunks @ [[ty, of_nat fragmentLength],
                        subarray dat offset (offset + fragmentLength)]))
      else chunks)"
  by pat_completeness auto
termination
  by (relation "measure (\<lambda>(ty, dat, offset, chunks). length dat - offset)")
     (auto simp: TLV8_MAX_FRAGMENT_SIZE_def)

declare encodeTLV8_while.simps [simp del]

text \<open>The outer \<open>for (const {type, data} of items)\<close> loop and the final \<open>Buffer.concat\<close>.\<close>

definition encodeTLV8 :: "TLV8Item list \<Rightarrow> byte list" where
  "encodeTLV8 items =
     concat (foldl (\<lambda>chunks item. encodeTLV8_while (type item) (data item) 0 chunks) [] items)"

text \<open>
  Reading a TLV8 stream back into its records \<open>[type:1][length:1][payload:length]\<close>;
  \<open>None\<close> when the stream ends inside a record. The repository has no decoder: this
  reader only serves to speak about ``the records of the output''.
\<close>

fun tlv8_records :: "byte list \<Rightarrow> (byte \<times> byte list) list option" where
  "tlv8_records [] = Some []"
| "tlv8_records [t] = None"
| "tlv8_records (t # l # bs) =
     (if length bs < unat l then None
      else (case tlv8_records (drop (unat l) bs) of
              None \<Rightarrow> None
            | Some recs \<Rightarrow> Some ((t, take (unat l) bs) # recs)))"

text \<open>The payloads of the records of type \<open>t\<close>, concatenated in stream order.\<close>

definition tlv8_payload :: "byte \<Rightarrow> byte list \<Rightarrow> byte list option" where
  "tlv8_payload t bs =
     (case tlv8_records bs of
        None \<Rightarrow> None
      | Some recs \<Rightarrow> Some (concat (map snd (filter (\<lambda>r. fst r = t) recs))))"

text \<open>
  The byte image of one record, and the records that cover a value: full 255-byte
  fragments while bytes remain, then the rest. These two serve the proofs about the loop.
\<close>

definition record_bytes :: "byte \<times> byte list \<Rightarrow> byte list" where
  "record_bytes r = [fst r, of_nat (length (snd r))] @ snd r"

function fragments_of :: "byte \<Rightarrow> byte list \<Rightarrow> (byte \<times> byte list) list" where
  "fragments_of t d = (if d = [] then [] else (t, take 255 d) # fragments_of t (drop 255 d))"
  by pat_completeness auto
termination
  by (relation "measure (\<lambda>(t, d). length d)") auto

declare fragments_of.simps [simp del]

section \<open>OPACK2 encoder\<close>

subsection \<open>Constants\<close>

text \<open>
  The constants of \<open>constants.ts\<close>. They are JavaScript numbers that the encoder both
  compares with lengths and stores into buffers, so they are natural numbers here and
  become bytes where they are stored.
\<close>

definition OPACK2_NULL :: nat where "OPACK2_NULL = 0x03"
definition OPACK2_TRUE :: nat where "OPACK2_TRUE = 0x01"
definition OPACK2_FALSE :: nat where "OPACK2_FALSE = 0x02"
definition OPACK2_SMALL_INT_OFFSET :: nat where "OPACK2_SMALL_INT_OFFSET = 8"
definition OPACK2_SMALL_INT_MAX :: nat where "OPACK2_SMALL_INT_MAX = 0x27"
definition OPACK2_SMALL_STRING_MAX :: nat where "OPACK2_SMALL_STRING_MAX = 0x20"
definition OPACK2_SMALL_BYTES_MAX :: nat where "OPACK2_SMALL_BYTES_MAX = 0x20"
definition OPACK2_SMALL_ARRAY_MAX :: nat where "OPACK2_SMALL_ARRAY_MAX = 15"
definition OPACK2_SMALL_DICT_MAX :: nat where "OPACK2_SMALL_DICT_MAX = 15"

definition OPACK2_INT8_MARKER :: nat where "OPACK2_INT8_MARKER = 0x30"
definition OPACK2_INT32_MARKER :: nat where "OPACK2_INT32_MARKER = 0x32"
definition OPACK2_INT64_MARKER :: nat where "OPACK2_INT64_MARKER = 0x33"
definition OPACK2_FLOAT_MARKER :: nat where "OPACK2_FLOAT_MARKER = 0x35"

definition OPACK2_SMALL_STRING_BASE :: nat where "OPACK2_SMALL_STRING_BASE = 0x40"
definition OPACK2_STRING_8BIT_LEN_MARKER :: nat where "OPACK2_STRING_8BIT_LEN_MARKER = 0x61"
definition OPACK2_STRING_16BIT_LEN_MARKER :: nat where "OPACK2_STRING_16BIT_LEN_MARKER = 0x62"
definition OPACK2_STRING_32BIT_LEN_MARKER :: nat where "OPACK2_STRING_32BIT_LEN_MARKER = 0x63"

definition OPACK2_SMALL_BYTES_BASE :: nat where "OPACK2_SMALL_BYTES_BASE = 0x70"
definition OPACK2_BYTES_8BIT_LEN_MARKER :: nat where "OPACK2_BYTES_8BIT_LEN_MARKER = 0x91"
definition OPACK2_BYTES_16BIT_LEN_MARKER :: nat where "OPACK2_BYTES_16BIT_LEN_MARKER = 0x92"
definition OPACK2_BYTES_32BIT_LEN_MARKER :: nat where "OPACK2_BYTES_32BIT_LEN_MARKER = 0x93"

definition OPACK2_SMALL_ARRAY_BASE :: nat where "OPACK2_SMALL_ARRAY_BASE = 0xd0"
definition OPACK2_VARIABLE_ARRAY_MARKER :: nat where "OPACK2_VARIABLE_ARRAY_MARKER = 0xdf"

definition OPACK2_SMALL_DICT_BASE :: nat where "OPACK2_SMALL_DICT_BASE = 0xe0"
definition OPACK2_VARIABLE_DICT_MARKER :: nat where "OPACK2_VARIABLE_DICT_MARKER = 0xef"

definition OPACK2_UINT8_MAX :: nat where "OPACK2_UINT8_MAX = 0xff"
definition OPACK2_UINT16_MAX :: nat where "OPACK2_UINT16_MAX = 0xffff"
definition OPACK2_UINT32_MAX :: nat where "OPACK2_UINT32_MAX = 0xffffffff"

text \<open>\<open>Number.MAX_SAFE_INTEGER\<close> of the language, \<open>2^53 - 1\<close>.\<close>

definition MAX_SAFE_INTEGER :: nat where "MAX_SAFE_INTEGER = 2 ^ 53 - 1"

lemmas opack2_constants =
  OPACK2_NULL_def OPACK2_TRUE_def OPACK2_FALSE_def OPACK2_SMALL_INT_OFFSET_def
  OPACK2_SMALL_INT_MAX_def OPACK2_SMALL_STRING_MAX_def OPACK2_SMALL_BYTES_MAX_def
  OPACK2_SMALL_ARRAY_MAX_def OPACK2_SMALL_DICT_MAX_def OPACK2_INT8_MARKER_def
  OPACK2_INT32_MARKER_def OPACK2_INT64_MARKER_def OPACK2_FLOAT_MARKER_def
  OPACK2_SMALL_STRING_BASE_def OPACK2_STRING_8BIT_LEN_MARKER_def
  OPACK2_STRING_16BIT_LEN_MARKER_def OPACK2_STRING_32BIT_LEN_MARKER_def
  OPACK2_SMALL_BYTES_BASE_def OPACK2_BYTES_8BIT_LEN_MARKER_def
  OPACK2_BYTES_16BIT_LEN_MARKER_def OPACK2_BYTES_32BIT_LEN_MARKER_def
  OPACK2_SMALL_ARRAY_BASE_def OPACK2_VARIABLE_ARRAY_MARKER_def OPACK2_SMALL_DICT_BASE_def
  OPACK2_VARIABLE_DICT_MARKER_def OPACK2_UINT8_MAX_def OPACK2_UINT16_MAX_def
  OPACK2_UINT32_MAX_def MAX_SAFE_INTEGER_def

subsection \<open>Values\<close>

text \<open>
  A JavaScript \<open>number\<close> is a double: a finite value, or one of \<open>NaN\<close>, \<open>+Infinity\<close>,
  \<open>-Infinity\<close>. The finite values are modelled by the reals they denote (every double is
  a real; \<open>-0\<close> and \<open>0\<close> coincide, and the encoder treats them alike). The encoder only
  compares a number with constants and, on the integer branches, stores it; both are exact
  on doubles.
\<close>

datatype number = Finite real | NaN | PosInfinity | NegInfinity

text \<open>\<open>Number.isInteger\<close>, and \<open>num < c\<close>, \<open>num <= c\<close> against a finite constant.\<close>

fun Number_isInteger :: "number \<Rightarrow> bool" where
  "Number_isInteger (Finite r) = (of_int \<lfloor>r\<rfloor> = r)"
| "Number_isInteger NaN = False"
| "Number_isInteger PosInfinity = False"
| "Number_isInteger NegInfinity = False"

fun js_lt :: "number \<Rightarrow> real \<Rightarrow> bool" where
  "js_lt (Finite r) c = (r < c)"
| "js_lt NaN c = False"
| "js_lt PosInfinity c = False"
| "js_lt NegInfinity c = True"

fun js_le :: "number \<Rightarrow> real \<Rightarrow> bool" where
  "js_le (Finite r) c = (r \<le> c)"
| "js_le NaN c = False"
| "js_le PosInfinity c = False"
| "js_le NegInfinity c = True"

text \<open>
  The integer a number denotes once \<open>Number.isInteger\<close> holds, and the byte that
  \<open>Buffer.from([v])\<close> stores for it (the integer modulo 256).
\<close>

fun integer_of :: "number \<Rightarrow> int" where
  "integer_of (Finite r) = \<lfloor>r\<rfloor>"
| "integer_of NaN = 0"
| "integer_of PosInfinity = 0"
| "integer_of NegInfinity = 0"

text \<open>
  The values the encoder accepts (\<open>SerializableValue\<close>). A string is the list of its
  characters; an object is the list of its entries in the order of \<open>Object.entries\<close>.
\<close>

datatype SerializableValue =
    Null
  | Undefined
  | Boolean bool
  | Number number
  | String string
  | Buffer "byte list"
  | Array "SerializableValue list"
  | Object "(string \<times> SerializableValue) list"

datatype AppleTVError =
    UnsupportedType
  | NumberTooLarge number
  | StringTooLong nat
  | BytesTooLong nat

subsection \<open>Writing integers into buffers\<close>

text \<open>
  \<open>writeUInt32LE\<close>, \<open>writeBigUInt64LE\<close> and \<open>writeUInt16BE\<close>, \<open>writeUInt32BE\<close>: the
  \<open>w\<close> bytes of a value, least or most significant byte first. The callers guard the
  range, so the value always fits where the encoder uses them.
\<close>

fun writeUIntLE :: "nat \<Rightarrow> nat \<Rightarrow> byte list" where
  "writeUIntLE 0 v = []"
| "writeUIntLE (Suc w) v = of_nat (v mod 256) # writeUIntLE w (v div 256)"

text \<open>The number that a little-endian byte sequence denotes.\<close>

fun uintLE_value :: "byte list \<Rightarrow> nat" where
  "uintLE_value [] = 0"
| "uintLE_value (b # bs) = unat b + 256 * uintLE_value bs"

definition writeUIntBE :: "nat \<Rightarrow> nat \<Rightarrow> byte list" where
  "writeUIntBE w v = rev (writeUIntLE w v)"

text \<open>
  \<open>Buffer.from(str, 'utf8')\<close> for strings of characters below 256: one byte below 128,
  two bytes from 128 on.
\<close>

definition utf8_char :: "char \<Rightarrow> byte list" where
  "utf8_char c =
     (let n = (of_char c :: nat) in
      if n < 128 then [of_nat n] else [of_nat (192 + n div 64), of_nat (128 + n mod 64)])"

definition utf8 :: "string \<Rightarrow> byte list" where
  "utf8 str = concat (map utf8_char str)"

subsection \<open>The encoder\<close>

text \<open>
  \<open>encodeNumber\<close>. \<open>buffer.writeFloatLE(num, 1)\<close> belongs to the platform: it stores the
  IEEE-754 single-precision value nearest to \<open>num\<close>, little-endian. The conversion of a
  number to the 32 bits of that single is the parameter \<open>float32\<close>.
\<close>

definition encodeNumber :: "(number \<Rightarrow> 32 word) \<Rightarrow> number \<Rightarrow> AppleTVError + byte list" where
  "encodeNumber float32 num =
     (if \<not> Number_isInteger num \<or> js_lt num 0 then
        Inr (of_nat OPACK2_FLOAT_MARKER # writeUIntLE 4 (unat (float32 num)))
      else if js_le num (real OPACK2_SMALL_INT_MAX) then
        Inr [of_int (integer_of num + int OPACK2_SMALL_INT_OFFSET)]
      else if js_le num (real OPACK2_UINT8_MAX) then
        Inr [of_nat OPACK2_INT8_MARKER, of_int (integer_of num)]
      else if js_le num (real OPACK2_UINT32_MAX) then
        Inr (of_nat OPACK2_INT32_MARKER # writeUIntLE 4 (nat (integer_of num)))
      else if js_le num (real MAX_SAFE_INTEGER) then
        Inr (of_nat OPACK2_INT64_MARKER # writeUIntLE 8 (nat (integer_of num)))
      else Inl (NumberTooLarge num))"

definition encodeString :: "string \<Rightarrow> AppleTVError + byte list" where
  "encodeString str =
     (let encoded = utf8 str; len = length encoded in
      if len \<le> OPACK2_SMALL_STRING_MAX then
        Inr ([of_nat (OPACK2_SMALL_STRING_BASE + len)] @ encoded)
      else if len \<le> OPACK2_UINT8_MAX then
        Inr ([of_nat OPACK2_STRING_8BIT_LEN_MARKER, of_nat len] @ encoded)
      else if len \<le> OPACK2_UINT16_MAX then
        Inr ((of_nat OPACK2_STRING_16BIT_LEN_MARKER # writeUIntBE 2 len) @ encoded)
      else if len \<le> OPACK2_UINT32_MAX then
        Inr ((of_nat OPACK2_STRING_32BIT_LEN_MARKER # writeUIntBE 4 len) @ encoded)
      else Inl (StringTooLong len))"

definition encodeBytes :: "byte list \<Rightarrow> AppleTVError + byte list" where
  "encodeBytes bytes =
     (let len = length bytes in
      if len \<le> OPACK2_SMALL_BYTES_MAX then
        Inr ([of_nat (OPACK2_SMALL_BYTES_BASE + len)] @ bytes)
      else if len \<le> OPACK2_UINT8_MAX then
        Inr ([of_nat OPACK2_BYTES_8BIT_LEN_MARKER, of_nat len] @ bytes)
      else if len \<le> OPACK2_UINT16_MAX then
        Inr ((of_nat OPACK2_BYTES_16BIT_LEN_MARKER # writeUIntBE 2 len) @ bytes)
      else if len \<le> OPACK2_UINT32_MAX then
        Inr ((of_nat OPACK2_BYTES_32BIT_LEN_MARKER # writeUIntBE 4 len) @ bytes)
      else Inl (BytesTooLong len))"

text \<open>
  The loops \<open>for (const item of arr) parts.push(this.encode(item))\<close> of \<open>encodeArray\<close>
  and \<open>for (const [key, value] of entries) { parts.push(this.encode(key));
  parts.push(this.encode(value)) }\<close> of \<open>encodeDict\<close>, with \<open>this.encode\<close> as the
  argument \<open>enc\<close>. A loop stops at the first element whose encoding throws.
\<close>

fun encodeArray_for :: "(SerializableValue \<Rightarrow> AppleTVError + byte list) \<Rightarrow> SerializableValue list
      \<Rightarrow> byte list list \<Rightarrow> AppleTVError + byte list list" where
  "encodeArray_for enc [] parts = Inr parts"
| "encodeArray_for enc (item # arr) parts =
     (case enc item of
        Inl e \<Rightarrow> Inl e
      | Inr b \<Rightarrow> encodeArray_for enc arr (parts @ [b]))"

fun encodeDict_for :: "(SerializableValue \<Rightarrow> AppleTVError + byte list)
      \<Rightarrow> (string \<times> SerializableValue) list \<Rightarrow> byte list list
      \<Rightarrow> AppleTVError + byte list list" where
  "encodeDict_for enc [] parts = Inr parts"
| "encodeDict_for enc ((key, val) # entries) parts =
     (case enc (String key) of
        Inl e \<Rightarrow> Inl e
      | Inr kb \<Rightarrow>
          (case enc val of
             Inl e \<Rightarrow> Inl e
           | Inr vb \<Rightarrow> encodeDict_for enc entries (parts @ [kb, vb])))"

definition encodeArray :: "(SerializableValue \<Rightarrow> AppleTVError + byte list)
      \<Rightarrow> SerializableValue list \<Rightarrow> AppleTVError + byte list" where
  "encodeArray enc arr =
     (if length arr \<le> OPACK2_SMALL_ARRAY_MAX then
        (case encodeArray_for enc arr [[of_nat (OPACK2_SMALL_ARRAY_BASE + length arr)]] of
           Inl e \<Rightarrow> Inl e
         | Inr parts \<Rightarrow> Inr (concat parts))
      else
        (case encodeArray_for enc arr [[of_nat OPACK2_VARIABLE_ARRAY_MARKER]] of
           Inl e \<Rightarrow> Inl e
         | Inr parts \<Rightarrow> Inr (concat (parts @ [[of_nat OPACK2_NULL]]))))"

definition encodeDict :: "(SerializableValue \<Rightarrow> AppleTVError + byte list)
      \<Rightarrow> (string \<times> SerializableValue) list \<Rightarrow> AppleTVError + byte list" where
  "encodeDict enc entries =
     (if length entries < OPACK2_SMALL_DICT_MAX then
        (case encodeDict_for enc entries [[of_nat (OPACK2_SMALL_DICT_BASE + length entries)]] of
           Inl e \<Rightarrow> Inl e
         | Inr parts \<Rightarrow> Inr (concat parts))
      else
        (case encodeDict_for enc entries [[of_nat OPACK2_VARIABLE_DICT_MARKER]] of
           Inl e \<Rightarrow> Inl e
         | Inr parts \<Rightarrow> Inr (concat (parts @ [[of_nat OPACK2_NULL, of_nat OPACK2_NULL]]))))"

lemma encodeArray_for_cong [fundef_cong]:
  "arr = arr' \<Longrightarrow> (\<And>item. item \<in> set arr' \<Longrightarrow> enc item = enc' item) \<Longrightarrow> parts = parts'
     \<Longrightarrow> encodeArray_for enc arr parts = encodeArray_for enc' arr' parts'"
proof (induction arr' arbitrary: arr parts parts')
  case Nil
  then show ?case by simp
next
  case (Cons item arr')
  then show ?case by (auto split: sum.splits)
qed

lemma encodeDict_for_cong [fundef_cong]:
  "entries = entries' \<Longrightarrow>
   (\<And>key val. (key, val) \<in> set entries' \<Longrightarrow> enc (String key) = enc' (String key)) \<Longrightarrow>
   (\<And>key val. (key, val) \<in> set entries' \<Longrightarrow> enc val = enc' val) \<Longrightarrow> parts = parts'
     \<Longrightarrow> encodeDict_for enc entries parts = encodeDict_for enc' entries' parts'"
proof (induction entries' arbitrary: entries parts parts')
  case Nil
  then show ?case by simp
next
  case (Cons entry entries')
  obtain key val where entry: "entry = (key, val)" by (cases entry)
  have k: "enc (String key) = enc' (String key)" and v: "enc val = enc' val"
    using Cons.prems(2) [of key val] Cons.prems(3) [of key val] by (simp_all add: entry)
  have rest: "encodeDict_for enc entries' p = encodeDict_for enc' entries' p" for p
    using Cons.prems(2,3) by (intro Cons.IH) (auto simp: entry)
  show ?case
    by (simp add: Cons.prems(1,4) entry k v rest split: sum.splits)
qed

lemma encodeArray_cong [fundef_cong]:
  "arr = arr' \<Longrightarrow> (\<And>item. item \<in> set arr' \<Longrightarrow> enc item = enc' item)
     \<Longrightarrow> encodeArray enc arr = encodeArray enc' arr'"
  unfolding encodeArray_def
  using encodeArray_for_cong [of arr arr' enc enc'] by presburger

lemma encodeDict_cong [fundef_cong]:
  "entries = entries' \<Longrightarrow>
   (\<And>key val. (key, val) \<in> set entries' \<Longrightarrow> enc (String key) = enc' (String key)) \<Longrightarrow>
   (\<And>key val. (key, val) \<in> set entries' \<Longrightarrow> enc val = enc' val)
     \<Longrightarrow> encodeDict enc entries = encodeDict enc' entries'"
  unfolding encodeDict_def
  using encodeDict_for_cong [of entries entries' enc enc'] by presburger

text \<open>
  The dispatcher \<open>encode\<close>. Its final \<open>throw\<close> (unsupported type) is unreachable for a
  \<open>SerializableValue\<close>.
\<close>

fun encode :: "(number \<Rightarrow> 32 word) \<Rightarrow> SerializableValue \<Rightarrow> AppleTVError + byte list" where
  "encode float32 Null = Inr [of_nat OPACK2_NULL]"
| "encode float32 Undefined = Inr [of_nat OPACK2_NULL]"
| "encode float32 (Boolean obj) = Inr [of_nat (if obj then OPACK2_TRUE else OPACK2_FALSE)]"
| "encode float32 (Number obj) = encodeNumber float32 obj"
| "encode float32 (String obj) = encodeString obj"
| "encode float32 (Buffer obj) = encodeBytes obj"
| "encode float32 (Array obj) = encodeArray (encode float32) obj"
| "encode float32 (Object obj) = encodeDict (encode float32) obj"

definition dumps :: "(number \<Rightarrow> 32 word) \<Rightarrow> SerializableValue \<Rightarrow> AppleTVError + byte list" where
  "dumps float32 obj = encode float32 obj"

section \<open>SRP client\<close>

subsection \<open>Constants\<close>

definition SRP_PRIME_3072 :: int where
  "SRP_PRIME_3072 =
     0xFFFFFFFFFFFFFFFFC90FDAA22168C234C4C6628B80DC1CD129024E088A67CC74020BBEA63B139B22514A08798E3404DDEF9519B3CD3A431B302B0A6DF25F14374FE1356D6D51C245E485B576625E7EC6F44C42E9A637ED6B0BFF5CB6F406B7EDEE386BFB5A899FA5AE9F24117C4B1FE649286651ECE45B3DC2007CB8A163BF0598DA48361C55D39A69163FA8FD24CF5F83655D23DCA3AD961C62F356208552BB9ED529077096966D670C354E4ABC9804F1746C08CA18217C32905E462E36CE3BE39E772C180E86039B2783A2EC07A28FB5C55DF06F4C52C9DE2BCBF6955817183995497CEA956AE515D2261898FA051015728E5A8AAAC42DAD33170D04507A33A85521ABDF1CBA64ECFB850458DBEF0A8AEA71575D060C7DB3970F85A6E1E4C7ABF5AE8CDB0933D71E8C94E04A25619DCEE3D2261AD2EE6BF12FFA06D98A0864D87602733EC86A64521F2B18177B200CBBE117577A615D6C770988C0BAD946E208E24FA074E5AB3143DB5BFCE0FD108E4B82D120A93AD2CAFFFFFFFFFFFFFFFF"

definition SRP_GENERATOR :: int where "SRP_GENERATOR = 5"
definition SRP_USERNAME :: string where "SRP_USERNAME = ''Pair-Setup''"
definition SRP_KEY_LENGTH_BYTES :: nat where "SRP_KEY_LENGTH_BYTES = 384"
definition SRP_PRIVATE_KEY_BITS :: nat where "SRP_PRIVATE_KEY_BITS = 256"

definition ZERO :: int where "ZERO = 0"
definition ONE :: int where "ONE = 1"
definition MAX_KEY_GENERATION_ATTEMPTS :: nat where "MAX_KEY_GENERATION_ATTEMPTS = 100"

text \<open>The read-only fields \<open>N\<close>, \<open>g\<close> and \<open>N_MINUS_ONE\<close> of the client.\<close>

definition N :: int where "N = SRP_PRIME_3072"
definition g :: int where "g = SRP_GENERATOR"
definition N_MINUS_ONE :: int where "N_MINUS_ONE = N - ONE"

subsection \<open>Errors\<close>

text \<open>
  Every \<open>throw new SRPError(message)\<close> of the client, one constructor per message, in
  the order of the source. \<open>OverflowError\<close> is the failure of \<open>bigIntToBuffer\<close>.
\<close>

datatype SRPError =
    UsernameEmpty
  | PasswordEmpty
  | SaltEmpty
  | ServerKeyLength nat
  | ServerKeyRange
  | ServerKeyDivisible
  | KeysNotGeneratedYet
  | ProofPrerequisites
  | SessionKeyNotComputed
  | KeyGenerationFailed
  | SaltAndKeyFirst
  | ClientKeysNotGenerated
  | PasswordNotSet
  | ClientDisposed

datatype error = SRPError SRPError | OverflowError

subsection \<open>Big integers and buffers\<close>

text \<open>
  The operator \<open>%\<close> on \<open>bigint\<close>: the remainder of the division that truncates towards
  zero, with the sign of the dividend. The divisor is never 0 where the client uses it.
\<close>

definition bigint_rem :: "int \<Rightarrow> int \<Rightarrow> int" where
  "bigint_rem x y = sgn x * (\<bar>x\<bar> mod \<bar>y\<bar>)"

text \<open>
  Modelled from the spec: \<open>bufferToBigInt\<close> of \<open>utils/buffer-utils.js\<close>, which is not among
  the sources. \<open>bufferToBigInt(buf)\<close> is the non-negative integer that \<open>buf\<close> denotes in
  big-endian interpretation.
\<close>

definition bufferToBigInt :: "byte list \<Rightarrow> int" where
  "bufferToBigInt buf = foldl (\<lambda>acc b. acc * 256 + uint b) 0 buf"

text \<open>
  Modelled from the spec: \<open>bigIntToBuffer\<close> of \<open>utils/buffer-utils.js\<close>, which is not among
  the sources. \<open>bigIntToBuffer(n, width)\<close> is the \<open>width\<close>-byte big-endian representation of
  \<open>n\<close>, left-zero-padded; it fails if \<open>n\<close> does not fit.
\<close>

definition bigIntToBuffer :: "int \<Rightarrow> nat \<Rightarrow> error + byte list" where
  "bigIntToBuffer n width =
     (if n < 0 \<or> 256 ^ width \<le> n then Inl OverflowError
      else Inr (writeUIntBE width (nat n)))"

text \<open>
  Modelled from the spec: \<open>modPow\<close> of \<open>utils/buffer-utils.js\<close>, which is not among the
  sources. \<open>modPow(base, exp, mod)\<close> is \<open>base^exp mod mod\<close>, where the remainder is that of
  the language's \<open>%\<close> on \<open>bigint\<close>: it has the sign of the power, so a negative base with an
  odd exponent gives a result that is not positive (\<open>modPow(-2, 3, 7)\<close> is \<open>-1\<close>). The client
  calls it with non-negative exponents only.
\<close>

definition modPow :: "int \<Rightarrow> int \<Rightarrow> int \<Rightarrow> int" where
  "modPow base expo m = bigint_rem (base ^ nat expo) m"

text \<open>
  The functions of \<open>crypto-utils.js\<close>, which is not among the sources either, are
  parameters of the client: \<open>hash\<close> (SHA-512) and the derivations \<open>calculateK\<close>,
  \<open>calculateU\<close>, \<open>calculateX\<close> and \<open>calculateM1\<close>, with the argument order of their calls.
\<close>

record crypto_utils =
  hash :: "byte list \<Rightarrow> byte list"
  calculateK :: "int \<Rightarrow> int \<Rightarrow> nat \<Rightarrow> int"
  calculateU :: "int \<Rightarrow> int \<Rightarrow> nat \<Rightarrow> int"
  calculateX :: "byte list \<Rightarrow> string \<Rightarrow> string \<Rightarrow> int"
  calculateM1 :: "int \<Rightarrow> int \<Rightarrow> string \<Rightarrow> byte list \<Rightarrow> int \<Rightarrow> int \<Rightarrow> byte list \<Rightarrow> byte list"

text \<open>The read-only field \<open>k\<close>, computed by the constructor.\<close>

definition k :: "crypto_utils \<Rightarrow> int" where
  "k cu = calculateK cu N g SRP_KEY_LENGTH_BYTES"

subsection \<open>State\<close>

text \<open>
  The mutable fields of an \<open>SRPClient\<close>; \<open>priv_salt\<close> is \<open>_salt\<close>, \<open>priv_a\<close> is \<open>_a\<close> and so
  on. \<open>null\<close> is \<open>None\<close>.
\<close>

record SRPClient =
  username :: string
  password :: string
  priv_salt :: "byte list option"
  priv_a :: int
  priv_A :: int
  priv_B :: "int option"
  priv_S :: "int option"
  priv_K :: "byte list option"
  keysGenerated :: bool
  disposed :: bool

text \<open>The constructor.\<close>

definition new_SRPClient :: SRPClient where
  "new_SRPClient =
     \<lparr>username = SRP_USERNAME, password = '''', priv_salt = None, priv_a = ZERO, priv_A = ZERO,
      priv_B = None, priv_S = None, priv_K = None, keysGenerated = False, disposed = False\<rparr>"

text \<open>
  Truthiness of a \<open>bigint | null\<close>: \<open>null\<close> and \<open>0n\<close> are falsy. A \<open>Buffer\<close> is always
  truthy, so a \<open>Buffer | null\<close> is truthy exactly when it is not \<open>null\<close>.
\<close>

fun truthy_bigint :: "int option \<Rightarrow> bool" where
  "truthy_bigint None = False"
| "truthy_bigint (Some b) = (b \<noteq> 0)"

text \<open>
  \<open>String.prototype.trim\<close> on strings of characters below 256: it strips the white space
  and line terminators (tab, LF, VT, FF, CR, space, NBSP) at both ends.
\<close>

definition is_space :: "char \<Rightarrow> bool" where
  "is_space c = ((of_char c :: nat) \<in> {9, 10, 11, 12, 13, 32, 160})"

definition trim :: "string \<Rightarrow> string" where
  "trim s = rev (dropWhile is_space (rev (dropWhile is_space s)))"

type_synonym 'a result = "(error + 'a) \<times> SRPClient"

subsection \<open>Private methods\<close>

definition throwIfDisposed :: "SRPClient \<Rightarrow> error option" where
  "throwIfDisposed c = (if disposed c then Some (SRPError ClientDisposed) else None)"

definition validateIdentitySet :: "SRPClient \<Rightarrow> error option" where
  "validateIdentitySet c = (if password c = '''' then Some (SRPError PasswordNotSet) else None)"

text \<open>
  The \<open>while (attempts < MAX_KEY_GENERATION_ATTEMPTS)\<close> loop of \<open>generateClientKeys\<close>.
  Every round calls \<open>randomBytes\<close> once and either returns or increments \<open>attempts\<close>, so
  \<open>random attempts\<close> stands for the bytes that the call of that round returns.
\<close>

function generateClientKeys_while :: "(nat \<Rightarrow> byte list) \<Rightarrow> SRPClient \<Rightarrow> nat \<Rightarrow> unit result" where
  "generateClientKeys_while random c attempts =
     (if attempts < MAX_KEY_GENERATION_ATTEMPTS then
        (let randomBits = random attempts;
             c1 = c\<lparr>priv_a := bufferToBigInt randomBits\<rparr>
         in if priv_a c1 \<ge> N then generateClientKeys_while random c1 (attempts + 1)
            else if priv_a c1 = ZERO then generateClientKeys_while random c1 (attempts + 1)
            else
              (let c2 = c1\<lparr>priv_A := modPow g (priv_a c1) N\<rparr>
               in if priv_A c2 \<le> ONE \<or> priv_A c2 \<ge> N_MINUS_ONE
                  then generateClientKeys_while random c2 (attempts + 1)
                  else (Inr (), c2)))
      else (Inl (SRPError KeyGenerationFailed), c))"
  by pat_completeness auto
termination
  by (relation "measure (\<lambda>(random, c, attempts). MAX_KEY_GENERATION_ATTEMPTS - attempts)") auto

declare generateClientKeys_while.simps [simp del]

definition generateClientKeys :: "(nat \<Rightarrow> byte list) \<Rightarrow> SRPClient \<Rightarrow> unit result" where
  "generateClientKeys random c =
     (case validateIdentitySet c of
        Some e \<Rightarrow> (Inl e, c)
      | None \<Rightarrow> generateClientKeys_while random c 0)"

definition generateClientKeysIfReady :: "(nat \<Rightarrow> byte list) \<Rightarrow> SRPClient \<Rightarrow> unit result" where
  "generateClientKeysIfReady random c =
     (if priv_salt c \<noteq> None \<and> truthy_bigint (priv_B c) \<and> \<not> keysGenerated c then
        (case generateClientKeys random c of
           (Inl e, c1) \<Rightarrow> (Inl e, c1)
         | (Inr u, c1) \<Rightarrow> (Inr (), c1\<lparr>keysGenerated := True\<rparr>))
      else (Inr (), c))"

definition computeSharedSecret :: "crypto_utils \<Rightarrow> SRPClient \<Rightarrow> unit result" where
  "computeSharedSecret cu c =
     (case validateIdentitySet c of
        Some e \<Rightarrow> (Inl e, c)
      | None \<Rightarrow>
          (case (priv_salt c, priv_B c) of
             (Some salt, Some B) \<Rightarrow>
               if B = 0 then (Inl (SRPError SaltAndKeyFirst), c)
               else if priv_A c = ZERO then (Inl (SRPError ClientKeysNotGenerated), c)
               else
                 (let u = calculateU cu (priv_A c) B SRP_KEY_LENGTH_BYTES;
                      x = calculateX cu salt (username c) (password c);
                      gx = modPow g x N;
                      kgx = bigint_rem (k cu * gx) N;
                      base = B - kgx;
                      base = bigint_rem (bigint_rem base N + N) N;
                      exponent = priv_a c + u * x;
                      c1 = c\<lparr>priv_S := Some (modPow base exponent N)\<rparr>
                  in case bigIntToBuffer (modPow base exponent N) SRP_KEY_LENGTH_BYTES of
                       Inl e \<Rightarrow> (Inl e, c1)
                     | Inr SBuffer \<Rightarrow> (Inr (), c1\<lparr>priv_K := Some (hash cu SBuffer)\<rparr>))
           | _ \<Rightarrow> (Inl (SRPError SaltAndKeyFirst), c)))"

subsection \<open>Public methods and properties\<close>

definition setIdentity :: "string \<Rightarrow> string \<Rightarrow> SRPClient \<Rightarrow> unit result" where
  "setIdentity usern passw c =
     (case throwIfDisposed c of
        Some e \<Rightarrow> (Inl e, c)
      | None \<Rightarrow>
          if trim usern = '''' then (Inl (SRPError UsernameEmpty), c)
          else if passw = '''' then (Inl (SRPError PasswordEmpty), c)
          else (Inr (), c\<lparr>username := trim usern, password := passw\<rparr>))"

definition get_salt :: "SRPClient \<Rightarrow> byte list option" where
  "get_salt c = priv_salt c"

definition set_salt :: "(nat \<Rightarrow> byte list) \<Rightarrow> byte list \<Rightarrow> SRPClient \<Rightarrow> unit result" where
  "set_salt random val c =
     (case throwIfDisposed c of
        Some e \<Rightarrow> (Inl e, c)
      | None \<Rightarrow>
          if length val = 0 then (Inl (SRPError SaltEmpty), c)
          else generateClientKeysIfReady random (c\<lparr>priv_salt := Some val\<rparr>))"

definition get_serverPublicKey :: "SRPClient \<Rightarrow> error + byte list option" where
  "get_serverPublicKey c =
     (if truthy_bigint (priv_B c) then
        (case bigIntToBuffer (the (priv_B c)) SRP_KEY_LENGTH_BYTES of
           Inl e \<Rightarrow> Inl e
         | Inr buf \<Rightarrow> Inr (Some buf))
      else Inr None)"

definition set_serverPublicKey :: "(nat \<Rightarrow> byte list) \<Rightarrow> byte list \<Rightarrow> SRPClient \<Rightarrow> unit result" where
  "set_serverPublicKey random val c =
     (case throwIfDisposed c of
        Some e \<Rightarrow> (Inl e, c)
      | None \<Rightarrow>
          if length val \<noteq> SRP_KEY_LENGTH_BYTES then (Inl (SRPError (ServerKeyLength (length val))), c)
          else
            (let c1 = c\<lparr>priv_B := Some (bufferToBigInt val)\<rparr>;
                 B = bufferToBigInt val
             in if B \<le> ONE \<or> B \<ge> N_MINUS_ONE then (Inl (SRPError ServerKeyRange), c1)
                else if bigint_rem B N = ZERO then (Inl (SRPError ServerKeyDivisible), c1)
                else generateClientKeysIfReady random c1))"

definition get_publicKey :: "SRPClient \<Rightarrow> error + byte list" where
  "get_publicKey c =
     (case throwIfDisposed c of
        Some e \<Rightarrow> Inl e
      | None \<Rightarrow>
          if priv_A c = ZERO then Inl (SRPError KeysNotGeneratedYet)
          else bigIntToBuffer (priv_A c) SRP_KEY_LENGTH_BYTES)"

definition computeProof :: "crypto_utils \<Rightarrow> SRPClient \<Rightarrow> byte list result" where
  "computeProof cu c =
     (case throwIfDisposed c of
        Some e \<Rightarrow> (Inl e, c)
      | None \<Rightarrow>
          (case validateIdentitySet c of
             Some e \<Rightarrow> (Inl e, c)
           | None \<Rightarrow>
               (case (if priv_K c = None then computeSharedSecret cu c else (Inr (), c)) of
                  (Inl e, c1) \<Rightarrow> (Inl e, c1)
                | (Inr u, c1) \<Rightarrow>
                    (case (priv_salt c1, priv_K c1) of
                       (Some salt, Some K) \<Rightarrow>
                         if truthy_bigint (priv_B c1) then
                           (Inr (calculateM1 cu N g (username c1) salt (priv_A c1)
                                   (the (priv_B c1)) K), c1)
                         else (Inl (SRPError ProofPrerequisites), c1)
                     | _ \<Rightarrow> (Inl (SRPError ProofPrerequisites), c1)))))"

definition get_sessionKey :: "crypto_utils \<Rightarrow> SRPClient \<Rightarrow> byte list result" where
  "get_sessionKey cu c =
     (case throwIfDisposed c of
        Some e \<Rightarrow> (Inl e, c)
      | None \<Rightarrow>
          (case validateIdentitySet c of
             Some e \<Rightarrow> (Inl e, c)
           | None \<Rightarrow>
               (case (if priv_K c = None then computeSharedSecret cu c else (Inr (), c)) of
                  (Inl e, c1) \<Rightarrow> (Inl e, c1)
                | (Inr u, c1) \<Rightarrow>
                    (case priv_K c1 of
                       None \<Rightarrow> (Inl (SRPError SessionKeyNotComputed), c1)
                     | Some K \<Rightarrow> (Inr K, c1)))))"

definition isReady :: "SRPClient \<Rightarrow> bool" where
  "isReady c = (\<not> disposed c \<and> (priv_salt c \<noteq> None \<and> truthy_bigint (priv_B c) \<and> keysGenerated c))"

definition hasSessionKey :: "SRPClient \<Rightarrow> bool" where
  "hasSessionKey c = (\<not> disposed c \<and> priv_K c \<noteq> None)"

text \<open>\<open>dispose\<close>; \<open>this._K.fill(0)\<close> overwrites the session key in place with zero bytes.\<close>

definition dispose :: "SRPClient \<Rightarrow> SRPClient" where
  "dispose c =
     (if disposed c then c
      else c\<lparr>password := '''', priv_a := ZERO,
             priv_K := map_option (\<lambda>K. replicate (length K) 0) (priv_K c),
             priv_salt := None, priv_S := None, priv_B := None, disposed := True\<rparr>)"

text \<open>
  A candidate that the key generation loop accepts: the private key \<open>a\<close> read from the
  random bytes passes both range checks and so does \<open>A = g^a mod N\<close>.
\<close>

definition valid_candidate :: "byte list \<Rightarrow> bool" where
  "valid_candidate randomBits =
     (let a = bufferToBigInt randomBits; A = modPow g a N
      in a < N \<and> a \<noteq> ZERO \<and> ONE < A \<and> A < N_MINUS_ONE)"

subsection \<open>A concrete client\<close>

text \<open>
  Stand-ins for the functions of \<open>crypto-utils.js\<close> with constant derivations
  (\<open>k = 3\<close>, \<open>u = 2\<close>, \<open>x = 3\<close>, the identity as hash), and a client in the state that
  \<open>setIdentity\<close>, the two setters and the key generation with \<open>a = 3\<close> leave behind for
  \<open>B = 7\<close>. They serve to run the client on concrete values: there \<open>B - k*g^x\<close> is
  negative and the exponent \<open>a + u*x = 9\<close> is odd.
\<close>

definition toy_crypto :: crypto_utils where
  "toy_crypto =
     \<lparr>hash = (\<lambda>buf. buf),
      calculateK = (\<lambda>n gen len. 3),
      calculateU = (\<lambda>a b len. 2),
      calculateX = (\<lambda>salt usern passw. 3),
      calculateM1 = (\<lambda>n gen usern salt a b key. key)\<rparr>"

definition keyed_client :: SRPClient where
  "keyed_client =
     \<lparr>username = SRP_USERNAME, password = ''1234'', priv_salt = Some [0x01], priv_a = 3,
      priv_A = 125, priv_B = Some 7, priv_S = None, priv_K = None, keysGenerated = True,
      disposed = False\<rparr>"

section \<open>Integers in buffers\<close>

lemma length_writeUIntLE: "length (writeUIntLE w v) = w"
  by (induction w arbitrary: v) auto

lemma value_writeUIntLE: "uintLE_value (writeUIntLE w v) = v mod 256 ^ w"
proof (induction w arbitrary: v)
  case 0
  then show ?case by simp
next
  case (Suc w)
  have b: "unat (of_nat (v mod 256) :: byte) = v mod 256"
    by (simp add: unat_of_nat)
  have "v mod (256 * 256 ^ w) = 256 * (v div 256 mod 256 ^ w) + v mod 256"
    by (rule mod_mult2_eq)
  then show ?case
    by (simp add: Suc.IH b)
qed


section \<open>Properties of the TLV8 encoder\<close>

lemma record_bytes_pair: "record_bytes (t, p) = t # of_nat (length p) # p"
  by (simp add: record_bytes_def)

lemma take_min_length: "take (min n (length xs)) xs = take n xs"
  by (cases "n \<le> length xs") (simp_all add: min_def)

lemma drop_step: "off < length dat \<Longrightarrow>
   drop (off + min 255 (length dat - off)) dat = drop 255 (drop off dat)"
  by (cases "255 \<le> length dat - off") (simp_all add: min_def add.commute)

lemma while_records:
  "concat (encodeTLV8_while ty dat off chunks) =
     concat chunks @ concat (map record_bytes (fragments_of ty (drop off dat)))"
proof (induction ty dat off chunks rule: encodeTLV8_while.induct)
  case (1 ty dat offset chunks)
  show ?case
  proof (cases "offset < length dat")
    case True
    define n where "n = min TLV8_MAX_FRAGMENT_SIZE (length dat - offset)"
    have n255: "n = min 255 (length dat - offset)"
      by (simp add: n_def TLV8_MAX_FRAGMENT_SIZE_def)
    have sub: "subarray dat offset (offset + n) = take 255 (drop offset dat)"
      using take_min_length [of 255 "drop offset dat"] by (simp add: subarray_def n255)
    have len: "min (length dat - offset) 255 = n"
      by (simp add: n255 min.commute)
    have ne: "drop offset dat \<noteq> []" using True by simp
    have step: "encodeTLV8_while ty dat offset chunks =
        encodeTLV8_while ty dat (offset + n)
          (chunks @ [[ty, of_nat n], subarray dat offset (offset + n)])"
      using True by (subst encodeTLV8_while.simps) (simp add: n_def Let_def)
    have ih: "concat (encodeTLV8_while ty dat (offset + n)
          (chunks @ [[ty, of_nat n], subarray dat offset (offset + n)])) =
        concat (chunks @ [[ty, of_nat n], subarray dat offset (offset + n)]) @
        concat (map record_bytes (fragments_of ty (drop (offset + n) dat)))"
      using "1.IH" [OF True refl] by (simp add: n_def)
    have fr: "fragments_of ty (drop offset dat) =
        (ty, take 255 (drop offset dat)) # fragments_of ty (drop (offset + n) dat)"
      using ne drop_step [OF True] by (subst fragments_of.simps) (simp add: n255)
    show ?thesis
      unfolding step ih by (simp add: fr record_bytes_pair sub len)
  next
    case False
    then show ?thesis
      by (subst encodeTLV8_while.simps, subst fragments_of.simps) simp
  qed
qed

lemma foldl_chunks:
  "concat (foldl (\<lambda>chunks item. encodeTLV8_while (type item) (data item) 0 chunks) acc items) =
     concat acc @ concat (map (\<lambda>item. concat (map record_bytes (fragments_of (type item) (data item)))) items)"
  by (induction items arbitrary: acc) (simp_all add: while_records)

lemma encodeTLV8_records:
  "encodeTLV8 items =
     concat (map (\<lambda>item. concat (map record_bytes (fragments_of (type item) (data item)))) items)"
  by (simp add: encodeTLV8_def foldl_chunks)

lemma fragments_payload: "concat (map snd (fragments_of t d)) = d"
proof (induction t d rule: fragments_of.induct)
  case (1 t d)
  show ?case
  proof (cases "d = []")
    case True then show ?thesis by (subst fragments_of.simps) simp
  next
    case False
    then show ?thesis using 1 by (subst fragments_of.simps) simp
  qed
qed

lemma fragments_type: "r \<in> set (fragments_of t d) \<Longrightarrow> fst r = t \<and> length (snd r) \<le> 255"
proof (induction t d arbitrary: r rule: fragments_of.induct)
  case (1 t d)
  show ?case
  proof (cases "d = []")
    case True then show ?thesis using "1.prems" by (subst (asm) fragments_of.simps) simp
  next
    case False
    then have "r = (t, take 255 d) \<or> r \<in> set (fragments_of t (drop 255 d))"
      using "1.prems" by (subst (asm) fragments_of.simps) simp
    then show ?thesis using "1.IH" [OF False, of r] by (cases r) auto
  qed
qed

lemma records_of_bytes:
  "(\<And>r. r \<in> set recs \<Longrightarrow> length (snd r) \<le> 255) \<Longrightarrow>
     tlv8_records (concat (map record_bytes recs)) = Some recs"
proof (induction recs)
  case Nil then show ?case by simp
next
  case (Cons r recs)
  obtain t p where r: "r = (t, p)" by (cases r)
  have l: "length p \<le> 255" using Cons.prems [of r] by (simp add: r)
  then have u: "unat (of_nat (length p) :: byte) = length p"
    by (simp add: unat_of_nat)
  have rest: "tlv8_records (concat (map record_bytes recs)) = Some recs"
    using Cons by simp
  show ?case
    by (simp add: r record_bytes_pair u rest)
qed


lemma fragments_closed:
  "fragments_of t d =
     map (\<lambda>i. (t, subarray d (255 * i) (255 * i + 255))) [0..<length d div 255] @
     (if length d mod 255 = 0 then [] else [(t, drop (255 * (length d div 255)) d)])"
proof (induction t d rule: fragments_of.induct)
  case (1 t d)
  show ?case
  proof (cases "d = []")
    case True
    then show ?thesis by (subst fragments_of.simps) simp
  next
    case False
    have unf: "fragments_of t d = (t, take 255 d) # fragments_of t (drop 255 d)"
      using False by (subst fragments_of.simps) simp
    show ?thesis
    proof (cases "length d < 255")
      case True
      have "fragments_of t (drop 255 d) = []"
        using True by (subst fragments_of.simps) simp
      then show ?thesis using True False by (simp add: unf)
    next
      case ge: False
      define q where "q = (length d - 255) div 255"
      have dv: "length d div 255 = Suc q"
        using ge by (simp add: q_def le_div_geq)
      have md: "length d mod 255 = (length d - 255) mod 255"
        using ge by (simp add: le_mod_geq)
      have sub: "subarray (drop 255 d) (255 * i) (255 * i + 255) =
                 subarray d (255 * Suc i) (255 * Suc i + 255)" for i
        by (simp add: subarray_def add.commute)
      have dr: "drop (255 * q) (drop 255 d) = drop (255 * Suc q) d"
        by (simp add: add.commute)
      have ih: "fragments_of t (drop 255 d) =
          map (\<lambda>i. (t, subarray d (255 * Suc i) (255 * Suc i + 255))) [0..<q] @
          (if length d mod 255 = 0 then [] else [(t, drop (255 * Suc q) d)])"
        using "1.IH" [OF False] by (simp only: sub dr length_drop q_def [symmetric] md [symmetric])
      have hd0: "subarray d (255 * 0) (255 * 0 + 255) = take 255 d"
        by (simp add: subarray_def)
      show ?thesis
        unfolding unf ih dv map_upt_Suc by (simp only: hd0 list.map append_Cons)
    qed
  qed
qed

lemma encode_single:
  "encodeTLV8 [\<lparr>type = t, data = d\<rparr>] = concat (map record_bytes (fragments_of t d))"
  by (simp add: encodeTLV8_records)

lemma tlv8_fragmentation:
  "encodeTLV8 [\<lparr>type = t, data = d\<rparr>] =
     concat (map (\<lambda>i. [t, 255] @ subarray d (255 * i) (255 * i + 255)) [0..<length d div 255]) @
     (if length d mod 255 = 0 then []
      else [t, of_nat (length d mod 255)] @ drop (255 * (length d div 255)) d)"
proof -
  have full: "record_bytes (t, subarray d (255 * i) (255 * i + 255)) =
                [t, 255] @ subarray d (255 * i) (255 * i + 255)"
    if "i < length d div 255" for i
  proof -
    have "255 * i + 255 \<le> length d" using that by (simp add: less_eq_div_iff_mult_less_eq) 
    then have "length (subarray d (255 * i) (255 * i + 255)) = 255"
      by (simp add: subarray_def)
    then show ?thesis by (simp add: record_bytes_pair)
  qed
  have m: "map record_bytes (map (\<lambda>i. (t, subarray d (255 * i) (255 * i + 255))) [0..<length d div 255]) =
           map (\<lambda>i. [t, 255] @ subarray d (255 * i) (255 * i + 255)) [0..<length d div 255]"
    by (simp add: full)
  have tl: "length d - 255 * (length d div 255) = length d mod 255"
    by (simp add: minus_mult_div_eq_mod)
  show ?thesis
    unfolding encode_single fragments_closed map_append m
    by (simp add: record_bytes_pair tl)
qed


lemma encode_260:
  "encodeTLV8 [\<lparr>type = 0x05, data = replicate 260 0xAB\<rparr>] =
     [0x05, 0xFF] @ replicate 255 0xAB @ [0x05, 0x05] @ replicate 5 0xAB"
proof -
  have f0: "fragments_of t [] = []" for t by (subst fragments_of.simps) simp
  have f1: "fragments_of 5 (replicate 5 (0xAB::byte)) = [(5, replicate 5 0xAB)]"
    by (subst fragments_of.simps) (simp add: f0)
  have f2: "fragments_of 5 (replicate 260 (0xAB::byte)) =
              [(5, replicate 255 0xAB), (5, replicate 5 0xAB)]"
    by (subst fragments_of.simps) (simp add: f1)
  show ?thesis by (simp add: encode_single f2 record_bytes_pair)
qed

lemma encode_510:
  "encodeTLV8 [\<lparr>type = 0x05, data = replicate 510 0xAB\<rparr>] =
     concat (map record_bytes [(0x05, replicate 255 0xAB), (0x05, replicate 255 0xAB)])"
proof -
  have f0: "fragments_of t [] = []" for t by (subst fragments_of.simps) simp
  have f1: "fragments_of 5 (replicate 255 (0xAB::byte)) = [(5, replicate 255 0xAB)]"
    by (subst fragments_of.simps) (simp add: f0)
  have f2: "fragments_of 5 (replicate 510 (0xAB::byte)) =
              [(5, replicate 255 0xAB), (5, replicate 255 0xAB)]"
    by (subst fragments_of.simps) (simp add: f1)
  show ?thesis by (simp only: encode_single f2)
qed

text \<open>
  Counterexample to claim C4 as stated: for 510 bytes of data the output holds exactly two
  records, both with length byte 255. No final record with length byte \<open>510 mod 255 = 0\<close>
  follows them.
\<close>

theorem tlv8_multiple_of_255_counterexample:
  "tlv8_records (encodeTLV8 [\<lparr>type = 0x05, data = replicate 510 0xAB\<rparr>]) =
     Some [(0x05, replicate 255 0xAB), (0x05, replicate 255 0xAB)] \<and>
   length (snd (last [(0x05 :: byte, replicate 255 (0xAB :: byte)), (0x05, replicate 255 0xAB)]))
     \<noteq> 510 mod 255"
proof -
  have "tlv8_records (concat (map record_bytes [(0x05, replicate 255 0xAB), (0x05, replicate 255 0xAB)])) =
     Some [(0x05, replicate 255 0xAB), (0x05, replicate 255 0xAB)]"
    by (rule records_of_bytes) auto
  then show ?thesis by (simp only: encode_510) simp
qed

text \<open>
  Claim C4, amended. For an item \<open>(t, d)\<close> the output consists of \<open>\<lfloor>|d| / 255\<rfloor>\<close>
  records of type \<open>t\<close> with length byte 255, each carrying the next 255 bytes of \<open>d\<close>;
  when \<open>|d| mod 255 \<noteq> 0\<close> one more record of type \<open>t\<close> follows, with length byte
  \<open>|d| mod 255\<close> and the remaining bytes; when \<open>|d|\<close> is a multiple of 255 nothing
  follows. The item \<open>(0x05, 260 bytes of 0xAB)\<close> encodes to \<open>05 FF\<close>, 255 bytes,
  \<open>05 05\<close>, 5 bytes.
\<close>

theorem tlv8_fragmentation_full:
  "encodeTLV8 [\<lparr>type = t, data = d\<rparr>] =
     concat (map (\<lambda>i. [t, 255] @ subarray d (255 * i) (255 * i + 255)) [0..<length d div 255]) @
     (if length d mod 255 = 0 then []
      else [t, of_nat (length d mod 255)] @ drop (255 * (length d div 255)) d) \<and>
   encodeTLV8 [\<lparr>type = 0x05, data = replicate 260 0xAB\<rparr>] =
     [0x05, 0xFF] @ replicate 255 0xAB @ [0x05, 0x05] @ replicate 5 0xAB"
  using tlv8_fragmentation [of t d] encode_260 by (rule conjI)

text \<open>
  Counterexample to claim C3 as stated: an item with empty data contributes no byte at
  all, so the output for \<open>[(0x06, [])]\<close> is empty and not the record \<open>[0x06, 0x00]\<close>.
\<close>

theorem tlv8_empty_counterexample:
  "encodeTLV8 [\<lparr>type = 0x06, data = []\<rparr>] = [] \<and>
   encodeTLV8 [\<lparr>type = 0x06, data = []\<rparr>] \<noteq> [0x06, 0x00]"
proof -
  have "fragments_of 6 [] = []" by (subst fragments_of.simps) simp
  then show ?thesis by (simp add: encode_single)
qed

text \<open>
  Claim C3, amended. An item whose data is empty emits no record; for every input list the
  output is the concatenation, in input order, of the encodings of the single items (so
  encoding distributes over appending item lists).
\<close>

theorem tlv8_order_and_empty:
  "encodeTLV8 [\<lparr>type = t, data = []\<rparr>] = [] \<and>
   encodeTLV8 items = concat (map (\<lambda>item. encodeTLV8 [item]) items) \<and>
   encodeTLV8 (xs @ ys) = encodeTLV8 xs @ encodeTLV8 ys"
proof -
  have "fragments_of t [] = []" by (subst fragments_of.simps) simp
  then show ?thesis by (simp add: encodeTLV8_records)
qed

text \<open>
  Claim C8. For every single-item input \<open>[(t, d)]\<close>, with \<open>d\<close> of any length, the output
  parses into records, and the payloads of the records whose type byte is \<open>t\<close>,
  concatenated in order, are exactly \<open>d\<close>.
\<close>

theorem tlv8_payload_roundtrip:
  "tlv8_payload t (encodeTLV8 [\<lparr>type = t, data = d\<rparr>]) = Some d"
proof -
  have recs: "tlv8_records (encodeTLV8 [\<lparr>type = t, data = d\<rparr>]) = Some (fragments_of t d)"
    unfolding encode_single using fragments_type [of _ t d] by (intro records_of_bytes) simp
  have "filter (\<lambda>r. fst r = t) (fragments_of t d) = fragments_of t d"
    using fragments_type [of _ t d] by (intro filter_True) simp
  then show ?thesis
    by (simp add: tlv8_payload_def recs fragments_payload)
qed

section \<open>Properties of the OPACK2 encoder\<close>

lemma isInteger_of_int: "Number_isInteger (Finite (of_int n))"
  by simp

lemma encodeNumber_small:
  "0 \<le> n \<Longrightarrow> n \<le> 39 \<Longrightarrow> encodeNumber float32 (Finite (of_int n)) = Inr [of_int (n + 8)]"
  by (simp add: encodeNumber_def opack2_constants)

lemma encodeNumber_uint8:
  "40 \<le> n \<Longrightarrow> n \<le> 0xFF \<Longrightarrow> encodeNumber float32 (Finite (of_int n)) = Inr [0x30, of_int n]"
  by (simp add: encodeNumber_def opack2_constants)

lemma encodeNumber_uint32:
  "0x100 \<le> n \<Longrightarrow> n \<le> 0xFFFFFFFF \<Longrightarrow>
     encodeNumber float32 (Finite (of_int n)) = Inr (0x32 # writeUIntLE 4 (nat n))"
  by (simp add: encodeNumber_def opack2_constants)

lemma encodeNumber_uint64:
  "0xFFFFFFFF < n \<Longrightarrow> n \<le> 2 ^ 53 - 1 \<Longrightarrow>
     encodeNumber float32 (Finite (of_int n)) = Inr (0x33 # writeUIntLE 8 (nat n))"
  by (simp add: encodeNumber_def opack2_constants)

lemma encodeNumber_too_large:
  "2 ^ 53 - 1 < n \<Longrightarrow>
     encodeNumber float32 (Finite (of_int n)) = Inl (NumberTooLarge (Finite (of_int n)))"
  by (simp add: encodeNumber_def opack2_constants)

lemma encodeNumber_float:
  "\<not> Number_isInteger num \<or> js_lt num 0 \<Longrightarrow>
     encodeNumber float32 num = Inr (0x35 # writeUIntLE 4 (unat (float32 num)))"
  by (auto simp add: encodeNumber_def opack2_constants)

lemma value32: "n \<le> 0xFFFFFFFF \<Longrightarrow> uintLE_value (writeUIntLE 4 n) = n"
  by (simp only: value_writeUIntLE) simp

lemma value64: "n \<le> 2 ^ 53 - 1 \<Longrightarrow> uintLE_value (writeUIntLE 8 n) = n"
  by (simp only: value_writeUIntLE) simp

lemma value_float: "uintLE_value (writeUIntLE 4 (unat (w :: 32 word))) = unat w"
proof -
  have "unat w < 2 ^ 32" using unsigned_less [of w] by simp
  then show ?thesis by (simp only: value_writeUIntLE) simp
qed


lemma writeUIntLE_4:
  "writeUIntLE 4 v = [of_nat (v mod 256), of_nat (v div 256 mod 256),
     of_nat (v div 256 div 256 mod 256), of_nat (v div 256 div 256 div 256 mod 256)]"
proof -
  have "writeUIntLE (Suc (Suc (Suc (Suc 0)))) v = [of_nat (v mod 256), of_nat (v div 256 mod 256),
     of_nat (v div 256 div 256 mod 256), of_nat (v div 256 div 256 div 256 mod 256)]"
    by (simp only: writeUIntLE.simps)
  moreover have "(4::nat) = Suc (Suc (Suc (Suc 0)))" by simp
  ultimately show ?thesis by (simp only:)
qed

lemma writeUIntLE_8:
  "writeUIntLE 8 v = writeUIntLE 4 v @ writeUIntLE 4 (v div 256 div 256 div 256 div 256)"
proof -
  have "writeUIntLE (Suc (Suc (Suc (Suc (Suc (Suc (Suc (Suc 0)))))))) v =
      writeUIntLE (Suc (Suc (Suc (Suc 0)))) v @
      writeUIntLE (Suc (Suc (Suc (Suc 0)))) (v div 256 div 256 div 256 div 256)"
    by (simp only: writeUIntLE.simps append_Cons append_Nil)
  moreover have "(4::nat) = Suc (Suc (Suc (Suc 0)))" by simp
  moreover have "(8::nat) = Suc (Suc (Suc (Suc (Suc (Suc (Suc (Suc 0)))))))" by simp
  ultimately show ?thesis by (simp only:)
qed

text \<open>
  Claim C5. The number encoder maps an integer \<open>n\<close> in \<open>0..39\<close> to the single byte
  \<open>n + 0x08\<close>; in \<open>40..0xFF\<close> to \<open>0x30\<close> and the byte \<open>n\<close>; in \<open>0x100..0xFFFFFFFF\<close> to
  \<open>0x32\<close> and the 4 little-endian bytes of \<open>n\<close>; above that and up to \<open>2^53 - 1\<close> to
  \<open>0x33\<close> and the 8 little-endian bytes of \<open>n\<close>; it raises an error for a larger integer;
  a number that is not an integer, or is negative, becomes \<open>0x35\<close> followed by the 4
  little-endian bytes of its IEEE-754 single. In particular \<open>encode(0) = 08\<close>,
  \<open>encode(39) = 2F\<close> and \<open>encode(40) = 30 28\<close>.
\<close>

theorem opack2_encodeNumber:
  fixes n :: int
  shows
   "(0 \<le> n \<and> n \<le> 39 \<longrightarrow> encodeNumber float32 (Finite (of_int n)) = Inr [of_int (n + 0x08)]) \<and>
    (40 \<le> n \<and> n \<le> 0xFF \<longrightarrow> encodeNumber float32 (Finite (of_int n)) = Inr [0x30, of_int n]) \<and>
    (0x100 \<le> n \<and> n \<le> 0xFFFFFFFF \<longrightarrow>
       encodeNumber float32 (Finite (of_int n)) = Inr (0x32 # writeUIntLE 4 (nat n)) \<and>
       length (writeUIntLE 4 (nat n)) = 4 \<and> int (uintLE_value (writeUIntLE 4 (nat n))) = n) \<and>
    (0xFFFFFFFF < n \<and> n \<le> 2 ^ 53 - 1 \<longrightarrow>
       encodeNumber float32 (Finite (of_int n)) = Inr (0x33 # writeUIntLE 8 (nat n)) \<and>
       length (writeUIntLE 8 (nat n)) = 8 \<and> int (uintLE_value (writeUIntLE 8 (nat n))) = n) \<and>
    (2 ^ 53 - 1 < n \<longrightarrow>
       encodeNumber float32 (Finite (of_int n)) = Inl (NumberTooLarge (Finite (of_int n)))) \<and>
    (\<not> Number_isInteger num \<or> js_lt num 0 \<longrightarrow>
       encodeNumber float32 num = Inr (0x35 # writeUIntLE 4 (unat (float32 num))) \<and>
       length (writeUIntLE 4 (unat (float32 num))) = 4 \<and>
       uintLE_value (writeUIntLE 4 (unat (float32 num))) = unat (float32 num)) \<and>
    encodeNumber float32 (Finite 0) = Inr [0x08] \<and>
    encodeNumber float32 (Finite 39) = Inr [0x2F] \<and>
    encodeNumber float32 (Finite 40) = Inr [0x30, 0x28]"
proof -
  have v32: "int (uintLE_value (writeUIntLE 4 (nat n))) = n" if "0x100 \<le> n" "n \<le> 0xFFFFFFFF"
    using that value32 [of "nat n"] by simp
  have v64: "int (uintLE_value (writeUIntLE 8 (nat n))) = n" if "0xFFFFFFFF < n" "n \<le> 2 ^ 53 - 1"
    using that value64 [of "nat n"] by simp
  have k0: "encodeNumber float32 (Finite 0) = Inr [0x08]"
    using encodeNumber_small [of 0 float32] by simp
  have k39: "encodeNumber float32 (Finite 39) = Inr [0x2F]"
    using encodeNumber_small [of 39 float32] by simp
  have k40: "encodeNumber float32 (Finite 40) = Inr [0x30, 0x28]"
    using encodeNumber_uint8 [of 40 float32] by simp
  show ?thesis
    using encodeNumber_small [of n float32] encodeNumber_uint8 [of n float32]
      encodeNumber_uint32 [of n float32] encodeNumber_uint64 [of n float32]
      encodeNumber_too_large [of n float32] encodeNumber_float [of num float32]
      v32 v64 k0 k39 k40
    by (simp add: length_writeUIntLE value_float)
qed

text \<open>
  Witness for C5: one number on each branch, with \<open>-1\<close> and \<open>NaN\<close> on the float branch
  (the single \<open>-1.0\<close> is \<open>0xBF800000\<close>).
\<close>

theorem opack2_encodeNumber_witness:
  "encodeNumber (\<lambda>num. 0xBF800000) (Finite 7) = Inr [0x0F] \<and>
   encodeNumber (\<lambda>num. 0xBF800000) (Finite 200) = Inr [0x30, 0xC8] \<and>
   encodeNumber (\<lambda>num. 0xBF800000) (Finite 0x12345678) = Inr [0x32, 0x78, 0x56, 0x34, 0x12] \<and>
   encodeNumber (\<lambda>num. 0xBF800000) (Finite 0x100000000) =
     Inr [0x33, 0x00, 0x00, 0x00, 0x00, 0x01, 0x00, 0x00, 0x00] \<and>
   encodeNumber (\<lambda>num. 0xBF800000) (Finite 0x20000000000000) =
     Inl (NumberTooLarge (Finite 0x20000000000000)) \<and>
   encodeNumber (\<lambda>num. 0xBF800000) (Finite (- 1)) = Inr [0x35, 0x00, 0x00, 0x80, 0xBF] \<and>
   encodeNumber (\<lambda>num. 0xBF800000) NaN = Inr [0x35, 0x00, 0x00, 0x80, 0xBF]"
  using opack2_encodeNumber [of 7 "\<lambda>num. 0xBF800000" "Finite (- 1)"]
    opack2_encodeNumber [of 200 "\<lambda>num. 0xBF800000" NaN]
    opack2_encodeNumber [of "0x12345678" "\<lambda>num. 0xBF800000" NaN]
    opack2_encodeNumber [of "0x100000000" "\<lambda>num. 0xBF800000" NaN]
    opack2_encodeNumber [of "0x20000000000000" "\<lambda>num. 0xBF800000" NaN]
  by (simp add: writeUIntLE_8 writeUIntLE_4)

lemma encodeArray_for_ok:
  "map enc arr = map Inr bs \<Longrightarrow> encodeArray_for enc arr parts = Inr (parts @ bs)"
proof (induction arr arbitrary: bs parts)
  case Nil
  then show ?case by simp
next
  case (Cons item arr)
  then obtain b bs' where bs: "bs = b # bs'" by (cases bs) auto
  have "enc item = Inr b" and "map enc arr = map Inr bs'"
    using Cons.prems by (simp_all add: bs)
  then show ?case
    using Cons.IH [of bs' "parts @ [b]"] by (simp add: bs)
qed

lemma encodeDict_for_ok:
  "map (\<lambda>(key, val). (enc (String key), enc val)) entries = map (\<lambda>(kb, vb). (Inr kb, Inr vb)) ps
     \<Longrightarrow> encodeDict_for enc entries parts = Inr (parts @ concat (map (\<lambda>(kb, vb). [kb, vb]) ps))"
proof (induction entries arbitrary: ps parts)
  case Nil
  then show ?case by simp
next
  case (Cons entry entries)
  obtain key val where entry: "entry = (key, val)" by (cases entry)
  from Cons.prems obtain p ps' where ps: "ps = p # ps'" by (cases ps) auto
  obtain kb vb where p: "p = (kb, vb)" by (cases p)
  have k: "enc (String key) = Inr kb" and v: "enc val = Inr vb"
    and rest: "map (\<lambda>(key, val). (enc (String key), enc val)) entries =
               map (\<lambda>(kb, vb). (Inr kb, Inr vb)) ps'"
    using Cons.prems by (simp_all add: ps p entry)
  show ?case
    using Cons.IH [OF rest, of "parts @ [kb, vb]"] by (simp add: entry ps p k v)
qed

lemma encodeArray_ok:
  assumes "map enc arr = map Inr bs"
  shows "encodeArray enc arr =
     Inr (if length arr \<le> 15 then of_nat (0xD0 + length arr) # concat bs
          else [0xDF] @ concat bs @ [0x03])"
  by (simp add: encodeArray_def encodeArray_for_ok [OF assms] opack2_constants)

lemma encodeDict_ok:
  assumes "map (\<lambda>(key, val). (enc (String key), enc val)) entries =
           map (\<lambda>(kb, vb). (Inr kb, Inr vb)) ps"
  shows "encodeDict enc entries =
     Inr (if length entries < 15 then of_nat (0xE0 + length entries) # concat (map (\<lambda>(kb, vb). kb @ vb) ps)
          else [0xEF] @ concat (map (\<lambda>(kb, vb). kb @ vb) ps) @ [0x03, 0x03])"
proof -
  have c: "concat (concat (map (\<lambda>(kb, vb). [kb, vb]) ps)) = concat (map (\<lambda>(kb, vb). kb @ vb) ps)"
    by (induction ps) auto
  show ?thesis
    by (simp add: encodeDict_def encodeDict_for_ok [OF assms] opack2_constants c)
qed

text \<open>
  Claim C6. When the elements encode to \<open>bs\<close>, an array of length \<open>L \<le> 15\<close> encodes to
  the header \<open>0xD0 + L\<close> and the element encodings, without terminator, and a longer one
  to \<open>0xDF\<close>, the element encodings and one \<open>0x03\<close>. When the keys and values encode to
  \<open>ps\<close>, a mapping of \<open>L < 15\<close> entries encodes to the header \<open>0xE0 + L\<close> and the
  alternating key and value encodings, and one of \<open>L \<ge> 15\<close> entries to \<open>0xEF\<close>, the
  entries and the two bytes \<open>0x03 0x03\<close>.
\<close>

theorem opack2_container_thresholds:
  assumes "map (encode float32) arr = map Inr bs"
    and "map (\<lambda>(key, val). (encode float32 (String key), encode float32 val)) entries =
         map (\<lambda>(kb, vb). (Inr kb, Inr vb)) ps"
  shows "encode float32 (Array arr) =
           Inr (if length arr \<le> 15 then of_nat (0xD0 + length arr) # concat bs
                else [0xDF] @ concat bs @ [0x03]) \<and>
         encode float32 (Object entries) =
           Inr (if length entries < 15
                then of_nat (0xE0 + length entries) # concat (map (\<lambda>(kb, vb). kb @ vb) ps)
                else [0xEF] @ concat (map (\<lambda>(kb, vb). kb @ vb) ps) @ [0x03, 0x03])"
  using encodeArray_ok [OF assms(1)] encodeDict_ok [OF assms(2)] by simp

text \<open>
  Witness for C6: a two-element array, the mapping \<open>{"a": 1}\<close>, a 16-element array and a
  15-entry list of entries.
\<close>

theorem opack2_container_thresholds_witness:
  "encode (\<lambda>num. 0) (Array [Null, Boolean True]) = Inr [0xD2, 0x03, 0x01] \<and>
   encode (\<lambda>num. 0) (Object [(''a'', Number (Finite 1))]) = Inr [0xE1, 0x41, 0x61, 0x09] \<and>
   encode (\<lambda>num. 0) (Array (replicate 16 Null)) = Inr ([0xDF] @ replicate 16 0x03 @ [0x03]) \<and>
   encode (\<lambda>num. 0) (Object (replicate 15 (''a'', Null))) =
     Inr ([0xEF] @ concat (replicate 15 [0x41, 0x61, 0x03]) @ [0x03, 0x03])"
proof -
  have s: "encodeString ''a'' = Inr [0x41, 0x61]"
    by (simp add: encodeString_def utf8_def utf8_char_def opack2_constants)
  have n: "encodeNumber (\<lambda>num. 0) (Finite 1) = Inr [0x09]"
    by (simp add: encodeNumber_def opack2_constants)
  have a: "map (encode (\<lambda>num. 0)) [Null, Boolean True] = map Inr [[0x03], [0x01]]"
    by (simp add: opack2_constants)
  have d: "map (\<lambda>(key, val). (encode (\<lambda>num. 0) (String key), encode (\<lambda>num. 0) val))
             [(''a'', Number (Finite 1))] =
           map (\<lambda>(kb, vb). (Inr kb, Inr vb)) [([0x41, 0x61], [0x09])]"
    by (simp add: s n)
  have a16: "map (encode (\<lambda>num. 0)) (replicate 16 Null) = map Inr (replicate 16 [0x03])"
    by (simp add: opack2_constants)
  have d15: "map (\<lambda>(key, val). (encode (\<lambda>num. 0) (String key), encode (\<lambda>num. 0) val))
             (replicate 15 (''a'', Null)) =
           map (\<lambda>(kb, vb). (Inr kb, Inr vb)) (replicate 15 ([0x41, 0x61], [0x03]))"
    by (simp add: s opack2_constants)
  have c16: "concat (replicate 16 [3::byte]) = replicate 16 3"
    by (simp add: numeral_eq_Suc)
  show ?thesis
    using opack2_container_thresholds [OF a d] opack2_container_thresholds [OF a16 d15]
    by (simp add: c16)
qed

text \<open>
  Claim C10. The small-form header of a 15-element array, \<open>0xD0 + 15\<close>, is the byte
  \<open>OPACK2_VARIABLE_ARRAY_MARKER = 0xDF\<close>, so every array of 15 or more elements (whose
  elements encode) starts with that same byte; only the array of exactly 15 elements has
  no terminator.
\<close>

theorem opack2_array_15_ambiguous:
  assumes "map (encode float32) arr = map Inr bs" and "15 \<le> length arr"
  shows "(of_nat (OPACK2_SMALL_ARRAY_BASE + 15) :: byte) = of_nat OPACK2_VARIABLE_ARRAY_MARKER \<and>
         encode float32 (Array arr) =
           Inr (of_nat OPACK2_VARIABLE_ARRAY_MARKER # concat bs @
                (if length arr = 15 then [] else [of_nat OPACK2_NULL]))"
  using encodeArray_ok [OF assms(1)] assms(2) by (auto simp: opack2_constants)

text \<open>
  Witness for C10: arrays of 15 and of 16 \<open>null\<close>s start with the same byte \<open>0xDF\<close>.
\<close>

theorem opack2_array_15_ambiguous_witness:
  "encode (\<lambda>num. 0) (Array (replicate 15 Null)) = Inr (0xDF # replicate 15 0x03) \<and>
   encode (\<lambda>num. 0) (Array (replicate 16 Null)) = Inr (0xDF # replicate 16 0x03 @ [0x03])"
proof -
  have a: "map (encode (\<lambda>num. 0)) (replicate n Null) = map Inr (replicate n [0x03])" for n
    by (simp add: opack2_constants)
  have c: "concat (replicate n [3::byte]) = replicate n 3" for n
    by (induction n) auto
  show ?thesis
    using opack2_array_15_ambiguous [OF a [of 15]] opack2_array_15_ambiguous [OF a [of 16]]
    by (simp add: c opack2_constants)
qed

section \<open>Properties of the SRP client\<close>

lemma N_pos: "0 < N"
  by (simp add: N_def SRP_PRIME_3072_def)

lemma N_gt: "1000 < N"
  by (simp add: N_def SRP_PRIME_3072_def)

lemma N_fits: "N < 256 ^ 384"
  by (simp add: N_def SRP_PRIME_3072_def)

lemma bufferToBigInt_rev: "bufferToBigInt (rev bs) = int (uintLE_value bs)"
  by (induction bs) (simp_all add: bufferToBigInt_def)

lemma bufferToBigInt_nonneg: "0 \<le> bufferToBigInt buf"
  using bufferToBigInt_rev [of "rev buf"] by simp

lemma bigIntToBuffer_fits:
  assumes "0 \<le> n" and "n < 256 ^ w"
  shows "bigIntToBuffer n w = Inr (writeUIntBE w (nat n))"
    and "length (writeUIntBE w (nat n)) = w"
    and "bufferToBigInt (writeUIntBE w (nat n)) = n"
proof -
  show "bigIntToBuffer n w = Inr (writeUIntBE w (nat n))"
    using assms by (simp add: bigIntToBuffer_def)
  show "length (writeUIntBE w (nat n)) = w"
    by (simp add: writeUIntBE_def length_writeUIntLE)
  have "nat n < 256 ^ w" using assms by (simp add: nat_less_iff)
  then show "bufferToBigInt (writeUIntBE w (nat n)) = n"
    using assms(1) by (simp add: writeUIntBE_def bufferToBigInt_rev value_writeUIntLE)
qed

lemma bufferToBigInt_zeros: "bufferToBigInt (replicate n 0) = 0"
proof -
  have "foldl (\<lambda>acc b. acc * 256 + uint b) 0 (replicate n (0::byte)) = 0"
    by (induction n) simp_all
  then show ?thesis by (simp add: bufferToBigInt_def)
qed

lemma bufferToBigInt_append: "bufferToBigInt (xs @ [b]) = bufferToBigInt xs * 256 + uint b"
  by (simp add: bufferToBigInt_def)

lemma bigint_rem_mod: "0 < m \<Longrightarrow> bigint_rem y m mod m = y mod m"
proof (cases "0 \<le> y")
  case True
  assume "0 < m"
  with True show ?thesis
    by (cases "y = 0") (simp_all add: bigint_rem_def)
next
  case False
  assume m: "0 < m"
  from False m have "bigint_rem y m = - ((- y) mod m)"
    by (simp add: bigint_rem_def)
  then show ?thesis
    by (simp add: mod_minus_eq)
qed

lemma bigint_rem_bounds: "0 < m \<Longrightarrow> - m < bigint_rem y m \<and> bigint_rem y m < m"
proof -
  assume m: "0 < m"
  have a: "0 \<le> \<bar>y\<bar> mod m" "\<bar>y\<bar> mod m < m" using m by simp_all
  have b: "0 \<le> (- y) mod m" "(- y) mod m < m" using m by simp_all
  consider "y < 0" | "y = 0" | "0 < y" by linarith
  then show ?thesis
  proof cases
    case 1
    then have "bigint_rem y m = - ((- y) mod m)" using m by (simp add: bigint_rem_def)
    then show ?thesis using b m by linarith
  next
    case 2 then show ?thesis using m by (simp add: bigint_rem_def)
  next
    case 3
    then have "bigint_rem y m = y mod m" using m by (simp add: bigint_rem_def)
    moreover have "0 \<le> y mod m" "y mod m < m" using m by simp_all
    ultimately show ?thesis using m by linarith
  qed
qed

lemma bigint_rem_pos: "0 < m \<Longrightarrow> 0 \<le> y \<Longrightarrow> bigint_rem y m = y mod m"
  by (cases "y = 0") (simp_all add: bigint_rem_def)

lemma modPow_nonneg: "0 \<le> b \<Longrightarrow> 0 < m \<Longrightarrow> modPow b e m = b ^ nat e mod m"
  by (simp add: modPow_def bigint_rem_pos)

lemma negative_modulo_fix:
  assumes "0 < m"
  shows "bigint_rem (bigint_rem y m + m) m = y mod m"
proof -
  have "0 \<le> bigint_rem y m + m" using bigint_rem_bounds [OF assms, of y] by simp
  then have "bigint_rem (bigint_rem y m + m) m = (bigint_rem y m + m) mod m"
    by (rule bigint_rem_pos [OF assms])
  also have "\<dots> = bigint_rem y m mod m" by simp
  also have "\<dots> = y mod m" by (rule bigint_rem_mod [OF assms])
  finally show ?thesis .
qed

lemma base_residue:
  assumes "0 < m"
  shows "bigint_rem (bigint_rem (B - bigint_rem (kk * (gg ^ e mod m)) m) m + m) m =
         (B - kk * gg ^ e) mod m"
proof -
  have "(B - bigint_rem (kk * (gg ^ e mod m)) m) mod m = (B - (bigint_rem (kk * (gg ^ e mod m)) m) mod m) mod m"
    by (simp add: mod_diff_right_eq)
  also have "\<dots> = (B - (kk * (gg ^ e mod m)) mod m) mod m"
    by (simp only: bigint_rem_mod [OF assms])
  also have "\<dots> = (B - (kk * gg ^ e) mod m) mod m"
    by (simp only: mod_mult_right_eq)
  also have "\<dots> = (B - kk * gg ^ e) mod m"
    by (simp add: mod_diff_right_eq)
  finally show ?thesis by (simp only: negative_modulo_fix [OF assms])
qed

lemma while_step:
  assumes "attempts < MAX_KEY_GENERATION_ATTEMPTS"
  shows "generateClientKeys_while random c attempts =
     (if N \<le> bufferToBigInt (random attempts) \<or> bufferToBigInt (random attempts) = 0
      then generateClientKeys_while random (c\<lparr>priv_a := bufferToBigInt (random attempts)\<rparr>) (Suc attempts)
      else if modPow g (bufferToBigInt (random attempts)) N \<le> 1 \<or>
              N_MINUS_ONE \<le> modPow g (bufferToBigInt (random attempts)) N
      then generateClientKeys_while random
             (c\<lparr>priv_a := bufferToBigInt (random attempts),
                priv_A := modPow g (bufferToBigInt (random attempts)) N\<rparr>) (Suc attempts)
      else (Inr (), c\<lparr>priv_a := bufferToBigInt (random attempts),
                        priv_A := modPow g (bufferToBigInt (random attempts)) N\<rparr>))"
  using assms by (subst generateClientKeys_while.simps) (simp add: Let_def ZERO_def ONE_def)

lemma while_succeeds:
  assumes "valid_candidate (random i)" and "i < MAX_KEY_GENERATION_ATTEMPTS"
  shows "attempts \<le> i \<Longrightarrow>
     \<exists>j. valid_candidate (random j) \<and>
         generateClientKeys_while random c attempts =
           (Inr (), c\<lparr>priv_a := bufferToBigInt (random j),
                       priv_A := modPow g (bufferToBigInt (random j)) N\<rparr>)"
proof (induction "i - attempts" arbitrary: attempts c)
  case 0
  then have eq: "attempts = i" by simp
  have v: "\<not> (N \<le> bufferToBigInt (random i) \<or> bufferToBigInt (random i) = 0)"
    "\<not> (modPow g (bufferToBigInt (random i)) N \<le> 1 \<or> N_MINUS_ONE \<le> modPow g (bufferToBigInt (random i)) N)"
    using assms(1) by (auto simp: valid_candidate_def Let_def ZERO_def ONE_def)
  show ?case
    unfolding eq using assms(1) by (subst while_step [OF assms(2)]) (simp only: v if_False, blast)
next
  case (Suc n)
  then have lt: "attempts < MAX_KEY_GENERATION_ATTEMPTS" and le: "Suc attempts \<le> i"
    and n: "n = i - Suc attempts"
    using assms(2) by simp_all
  let ?a = "bufferToBigInt (random attempts)"
  have ih: "\<exists>j. valid_candidate (random j) \<and>
         generateClientKeys_while random c' (Suc attempts) =
           (Inr (), c'\<lparr>priv_a := bufferToBigInt (random j),
                       priv_A := modPow g (bufferToBigInt (random j)) N\<rparr>)" for c'
    using Suc.hyps(1) [OF n le] .
  consider (r1) "N \<le> ?a \<or> ?a = 0"
    | (r2) "\<not> (N \<le> ?a \<or> ?a = 0)" "modPow g ?a N \<le> 1 \<or> N_MINUS_ONE \<le> modPow g ?a N"
    | (ok) "\<not> (N \<le> ?a \<or> ?a = 0)" "\<not> (modPow g ?a N \<le> 1 \<or> N_MINUS_ONE \<le> modPow g ?a N)"
    by blast
  then show ?case
  proof cases
    case r1
    from ih [of "c\<lparr>priv_a := ?a\<rparr>"] obtain j where
      "valid_candidate (random j)"
      "generateClientKeys_while random (c\<lparr>priv_a := ?a\<rparr>) (Suc attempts) =
         (Inr (), c\<lparr>priv_a := ?a\<rparr>\<lparr>priv_a := bufferToBigInt (random j),
                       priv_A := modPow g (bufferToBigInt (random j)) N\<rparr>)" by blast
    then show ?thesis
      by (subst while_step [OF lt]) (simp only: r1 if_True, auto)
  next
    case r2
    from ih [of "c\<lparr>priv_a := ?a, priv_A := modPow g ?a N\<rparr>"] obtain j where
      "valid_candidate (random j)"
      "generateClientKeys_while random (c\<lparr>priv_a := ?a, priv_A := modPow g ?a N\<rparr>) (Suc attempts) =
         (Inr (), c\<lparr>priv_a := ?a, priv_A := modPow g ?a N\<rparr>\<lparr>priv_a := bufferToBigInt (random j),
                       priv_A := modPow g (bufferToBigInt (random j)) N\<rparr>)" by blast
    then show ?thesis
      by (subst while_step [OF lt]) (simp only: r2 if_True if_False, auto)
  next
    case ok
    then have "valid_candidate (random attempts)"
      by (auto simp: valid_candidate_def Let_def ZERO_def ONE_def)
    then show ?thesis
      by (subst while_step [OF lt]) (simp only: ok if_False, blast)
  qed
qed

lemma set_serverPublicKey_rejected:
  assumes "\<not> disposed c" and "length val = 384"
    and "bufferToBigInt val \<le> 1 \<or> N - 1 \<le> bufferToBigInt val"
  shows "set_serverPublicKey random val c =
           (Inl (SRPError ServerKeyRange), c\<lparr>priv_B := Some (bufferToBigInt val)\<rparr>)"
  using assms
  by (simp add: set_serverPublicKey_def throwIfDisposed_def SRP_KEY_LENGTH_BYTES_def Let_def
      ONE_def N_MINUS_ONE_def)

lemma set_serverPublicKey_length:
  assumes "\<not> disposed c" and "length val \<noteq> 384"
  shows "set_serverPublicKey random val c = (Inl (SRPError (ServerKeyLength (length val))), c)"
  using assms
  by (simp add: set_serverPublicKey_def throwIfDisposed_def SRP_KEY_LENGTH_BYTES_def)

lemma set_serverPublicKey_disposed:
  assumes "disposed c"
  shows "set_serverPublicKey random val c = (Inl (SRPError ClientDisposed), c)"
  using assms by (simp add: set_serverPublicKey_def throwIfDisposed_def)

lemma encoded_key:
  assumes "0 \<le> v" and "v \<le> N"
  shows "bigIntToBuffer v 384 = Inr (writeUIntBE 384 (nat v))"
    and "length (writeUIntBE 384 (nat v)) = 384"
    and "bufferToBigInt (writeUIntBE 384 (nat v)) = v"
proof -
  have "v < 256 ^ 384" using assms(2) N_fits by linarith
  then show "bigIntToBuffer v 384 = Inr (writeUIntBE 384 (nat v))"
    and "length (writeUIntBE 384 (nat v)) = 384"
    and "bufferToBigInt (writeUIntBE 384 (nat v)) = v"
    using bigIntToBuffer_fits [OF assms(1), of 384] by simp_all
qed

text \<open>
  Claim C2. Assigning \<open>serverPublicKey\<close> raises an \<open>SRPError\<close> whenever the buffer is not
  384 bytes long, and for a 384-byte buffer whenever the integer \<open>B\<close> it encodes has
  \<open>B \<le> 1\<close> or \<open>B \<ge> N - 1\<close>. On a client that is not disposed the error is the size error
  in the first case and the range error in the second. In particular each of \<open>0\<close>, \<open>1\<close>,
  \<open>N - 1\<close> and \<open>N\<close> has a 384-byte big-endian encoding, and assigning it raises the range
  error.
\<close>

theorem serverPublicKey_rejects:
  "(length val \<noteq> 384 \<or> bufferToBigInt val \<le> 1 \<or> N - 1 \<le> bufferToBigInt val \<longrightarrow>
      (\<exists>m. fst (set_serverPublicKey random val c) = Inl (SRPError m))) \<and>
   (\<not> disposed c \<and> length val \<noteq> 384 \<longrightarrow>
      set_serverPublicKey random val c = (Inl (SRPError (ServerKeyLength (length val))), c)) \<and>
   (\<not> disposed c \<and> length val = 384 \<and> (bufferToBigInt val \<le> 1 \<or> N - 1 \<le> bufferToBigInt val) \<longrightarrow>
      fst (set_serverPublicKey random val c) = Inl (SRPError ServerKeyRange)) \<and>
   (\<not> disposed c \<and> v \<in> {0, 1, N - 1, N} \<longrightarrow>
      bigIntToBuffer v 384 = Inr (writeUIntBE 384 (nat v)) \<and>
      length (writeUIntBE 384 (nat v)) = 384 \<and>
      fst (set_serverPublicKey random (writeUIntBE 384 (nat v)) c) = Inl (SRPError ServerKeyRange))"
proof (intro conjI impI)
  assume bad: "length val \<noteq> 384 \<or> bufferToBigInt val \<le> 1 \<or> N - 1 \<le> bufferToBigInt val"
  show "\<exists>m. fst (set_serverPublicKey random val c) = Inl (SRPError m)"
  proof (cases "disposed c")
    case True
    then show ?thesis by (simp add: set_serverPublicKey_disposed)
  next
    case False
    then show ?thesis
      using bad set_serverPublicKey_length [OF False, of val random]
        set_serverPublicKey_rejected [OF False, of val random]
      by (cases "length val = 384") auto
  qed
next
  assume "\<not> disposed c \<and> length val \<noteq> 384"
  then show "set_serverPublicKey random val c = (Inl (SRPError (ServerKeyLength (length val))), c)"
    by (simp add: set_serverPublicKey_length)
next
  assume "\<not> disposed c \<and> length val = 384 \<and> (bufferToBigInt val \<le> 1 \<or> N - 1 \<le> bufferToBigInt val)"
  then show "fst (set_serverPublicKey random val c) = Inl (SRPError ServerKeyRange)"
    by (simp add: set_serverPublicKey_rejected)
next
  assume a: "\<not> disposed c \<and> v \<in> {0, 1, N - 1, N}"
  then have r: "0 \<le> v" "v \<le> N" "v \<le> 1 \<or> N - 1 \<le> v"
    using N_gt by auto
  show "bigIntToBuffer v 384 = Inr (writeUIntBE 384 (nat v))"
    and "length (writeUIntBE 384 (nat v)) = 384"
    by (rule encoded_key [OF r(1,2)])+
  show "fst (set_serverPublicKey random (writeUIntBE 384 (nat v)) c) = Inl (SRPError ServerKeyRange)"
    using a r(3) by (subst set_serverPublicKey_rejected) (simp_all add: encoded_key [OF r(1,2)])
qed

text \<open>
  Witness for C2 on a fresh client: a one-byte buffer, the 384 zero bytes, and the encodings
  of \<open>N\<close> and \<open>N - 1\<close>.
\<close>

theorem serverPublicKey_rejects_witness:
  "set_serverPublicKey (\<lambda>i. []) [0x02] new_SRPClient =
     (Inl (SRPError (ServerKeyLength 1)), new_SRPClient) \<and>
   fst (set_serverPublicKey (\<lambda>i. []) (replicate 384 0) new_SRPClient) = Inl (SRPError ServerKeyRange) \<and>
   fst (set_serverPublicKey (\<lambda>i. []) (writeUIntBE 384 (nat N)) new_SRPClient) =
     Inl (SRPError ServerKeyRange) \<and>
   fst (set_serverPublicKey (\<lambda>i. []) (writeUIntBE 384 (nat (N - 1))) new_SRPClient) =
     Inl (SRPError ServerKeyRange)"
  using serverPublicKey_rejects [of "[0x02]" "\<lambda>i. []" new_SRPClient N]
    serverPublicKey_rejects [of "replicate 384 0" "\<lambda>i. []" new_SRPClient "N - 1"]
  by (simp add: new_SRPClient_def bufferToBigInt_zeros)

lemma disposed_dispose: "disposed (dispose c)"
  by (simp add: dispose_def)

lemma throwIfDisposed_dispose: "throwIfDisposed (dispose c) = Some (SRPError ClientDisposed)"
  by (simp add: throwIfDisposed_def disposed_dispose)

lemma get_serverPublicKey_no_dispose_error:
  "get_serverPublicKey c \<noteq> Inl (SRPError ClientDisposed)"
  by (simp add: get_serverPublicKey_def bigIntToBuffer_def split: sum.splits)

text \<open>
  Counterexample to claim C7 as stated: after \<open>dispose()\<close> reading the \<open>salt\<close> and the
  \<open>serverPublicKey\<close> properties raises nothing; both getters return \<open>null\<close>.
\<close>

theorem after_dispose_counterexample:
  "get_salt (dispose (new_SRPClient\<lparr>priv_salt := Some [0x01]\<rparr>)) = None \<and>
   get_serverPublicKey (dispose (new_SRPClient\<lparr>priv_B := Some 7\<rparr>)) = Inr None"
  by (simp add: get_salt_def get_serverPublicKey_def dispose_def new_SRPClient_def)

text \<open>
  Claim C7, amended. After \<open>dispose()\<close>, \<open>setIdentity\<close>, the \<open>salt\<close> and \<open>serverPublicKey\<close>
  setters, the \<open>publicKey\<close> getter, \<open>computeProof\<close> and the \<open>sessionKey\<close> getter raise
  the use-after-dispose error and leave the state as it is. The \<open>salt\<close> and
  \<open>serverPublicKey\<close> getters do not raise it: on a client disposed from a live state they
  return \<open>null\<close>. \<open>isReady\<close> and \<open>hasSessionKey\<close> return false, and a second \<open>dispose\<close>
  changes no state.
\<close>

theorem after_dispose:
  "setIdentity usern passw (dispose c) = (Inl (SRPError ClientDisposed), dispose c) \<and>
   set_salt random val (dispose c) = (Inl (SRPError ClientDisposed), dispose c) \<and>
   set_serverPublicKey random val (dispose c) = (Inl (SRPError ClientDisposed), dispose c) \<and>
   get_publicKey (dispose c) = Inl (SRPError ClientDisposed) \<and>
   computeProof cu (dispose c) = (Inl (SRPError ClientDisposed), dispose c) \<and>
   get_sessionKey cu (dispose c) = (Inl (SRPError ClientDisposed), dispose c) \<and>
   get_serverPublicKey (dispose c) \<noteq> Inl (SRPError ClientDisposed) \<and>
   (\<not> disposed c \<longrightarrow> get_salt (dispose c) = None \<and> get_serverPublicKey (dispose c) = Inr None) \<and>
   \<not> isReady (dispose c) \<and> \<not> hasSessionKey (dispose c) \<and>
   dispose (dispose c) = dispose c"
proof -
  note d = throwIfDisposed_dispose [of c]
  have 1: "setIdentity usern passw (dispose c) = (Inl (SRPError ClientDisposed), dispose c)"
    by (simp add: setIdentity_def d)
  have 2: "set_salt random val (dispose c) = (Inl (SRPError ClientDisposed), dispose c)"
    by (simp add: set_salt_def d)
  have 3: "set_serverPublicKey random val (dispose c) = (Inl (SRPError ClientDisposed), dispose c)"
    by (simp add: set_serverPublicKey_def d)
  have 4: "get_publicKey (dispose c) = Inl (SRPError ClientDisposed)"
    by (simp add: get_publicKey_def d)
  have 5: "computeProof cu (dispose c) = (Inl (SRPError ClientDisposed), dispose c)"
    by (simp add: computeProof_def d)
  have 6: "get_sessionKey cu (dispose c) = (Inl (SRPError ClientDisposed), dispose c)"
    by (simp add: get_sessionKey_def d)
  have 7: "get_salt (dispose c) = None \<and> get_serverPublicKey (dispose c) = Inr None"
    if "\<not> disposed c"
    using that by (simp add: get_salt_def get_serverPublicKey_def dispose_def)
  have 8: "\<not> isReady (dispose c)" "\<not> hasSessionKey (dispose c)"
    by (simp_all add: isReady_def hasSessionKey_def disposed_dispose)
  have 9: "dispose (dispose c) = dispose c"
    using disposed_dispose [of c] by (subst dispose_def) simp
  show ?thesis
    using 1 2 3 4 5 6 7 8 9 get_serverPublicKey_no_dispose_error [of "dispose c"] by blast
qed

text \<open>
  Witness for C7: a live client with a salt, disposed.
\<close>

theorem after_dispose_witness:
  "setIdentity ''Pair-Setup'' ''1234'' (dispose (new_SRPClient\<lparr>priv_salt := Some [0x01]\<rparr>)) =
     (Inl (SRPError ClientDisposed), dispose (new_SRPClient\<lparr>priv_salt := Some [0x01]\<rparr>)) \<and>
   get_publicKey (dispose (new_SRPClient\<lparr>priv_salt := Some [0x01]\<rparr>)) = Inl (SRPError ClientDisposed) \<and>
   get_salt (dispose (new_SRPClient\<lparr>priv_salt := Some [0x01]\<rparr>)) = None \<and>
   get_serverPublicKey (dispose (new_SRPClient\<lparr>priv_salt := Some [0x01]\<rparr>)) = Inr None \<and>
   dispose (dispose (new_SRPClient\<lparr>priv_salt := Some [0x01]\<rparr>)) =
     dispose (new_SRPClient\<lparr>priv_salt := Some [0x01]\<rparr>)"
proof -
  have nd: "\<not> disposed (new_SRPClient\<lparr>priv_salt := Some [0x01]\<rparr>)"
    by (simp add: new_SRPClient_def)
  show ?thesis
    using after_dispose [of "''Pair-Setup''" "''1234''" "new_SRPClient\<lparr>priv_salt := Some [0x01]\<rparr>"] nd
    by blast
qed

lemma generateClientKeysIfReady_ready:
  assumes "priv_salt c \<noteq> None" and "truthy_bigint (priv_B c)" and "password c \<noteq> ''''"
    and "i < MAX_KEY_GENERATION_ATTEMPTS" and "valid_candidate (random i)"
  shows "\<exists>c'. generateClientKeysIfReady random c = (Inr (), c') \<and> keysGenerated c' \<and>
           priv_salt c' = priv_salt c \<and> priv_B c' = priv_B c \<and> disposed c' = disposed c \<and>
           (\<not> keysGenerated c \<longrightarrow>
              priv_A c' = modPow g (priv_a c') N \<and> 0 < priv_a c' \<and> priv_a c' < N \<and>
              1 < priv_A c' \<and> priv_A c' < N - 1)"
proof (cases "keysGenerated c")
  case True
  then show ?thesis by (simp add: generateClientKeysIfReady_def)
next
  case False
  obtain j where v: "valid_candidate (random j)"
    and w: "generateClientKeys_while random c 0 =
           (Inr (), c\<lparr>priv_a := bufferToBigInt (random j),
                       priv_A := modPow g (bufferToBigInt (random j)) N\<rparr>)"
    using while_succeeds [where random = random and i = i and attempts = 0 and c = c, OF assms(5,4)] by blast
  have nn: "0 \<le> bufferToBigInt (random j)" by (rule bufferToBigInt_nonneg)
  have r: "0 < bufferToBigInt (random j)" "bufferToBigInt (random j) < N"
    "1 < modPow g (bufferToBigInt (random j)) N" "modPow g (bufferToBigInt (random j)) N < N - 1"
    using v nn by (auto simp: valid_candidate_def Let_def ZERO_def ONE_def N_MINUS_ONE_def)
  show ?thesis
    using assms(1,2,3) False r
    by (simp add: generateClientKeysIfReady_def generateClientKeys_def validateIdentitySet_def w)
qed

text \<open>
  Claim C9, amended. On a live client with the identity set, for every 384-byte buffer whose
  value \<open>B\<close> is outside \<open>(1, N - 1)\<close> and not zero (that is, \<open>B = 1\<close> or \<open>B \<ge> N - 1\<close>), the
  assignment raises the range error and still stores \<open>B\<close>. A later assignment of a
  non-empty salt, with a random source that yields an acceptable candidate within the 100
  attempts, succeeds; it leaves the rejected \<open>B\<close> in place, and afterwards
  \<open>keysGenerated\<close> is set and \<open>isReady()\<close> returns true. If no keys had been generated
  before, the salt assignment generated valid keys \<open>(a, A)\<close>.
\<close>

theorem serverPublicKey_not_atomic:
  assumes "\<not> disposed c" and "password c \<noteq> ''''"
    and "length val = 384"
    and "bufferToBigInt val = 1 \<or> N - 1 \<le> bufferToBigInt val"
    and "salt \<noteq> []"
    and "i < MAX_KEY_GENERATION_ATTEMPTS" and "valid_candidate (random i)"
  shows "fst (set_serverPublicKey random0 val c) = Inl (SRPError ServerKeyRange) \<and>
         priv_B (snd (set_serverPublicKey random0 val c)) = Some (bufferToBigInt val) \<and>
         fst (set_salt random salt (snd (set_serverPublicKey random0 val c))) = Inr () \<and>
         priv_B (snd (set_salt random salt (snd (set_serverPublicKey random0 val c)))) =
           Some (bufferToBigInt val) \<and>
         keysGenerated (snd (set_salt random salt (snd (set_serverPublicKey random0 val c)))) \<and>
         isReady (snd (set_salt random salt (snd (set_serverPublicKey random0 val c)))) \<and>
         (\<not> keysGenerated c \<longrightarrow>
            (let c2 = snd (set_salt random salt (snd (set_serverPublicKey random0 val c)))
             in priv_A c2 = modPow g (priv_a c2) N \<and> 0 < priv_a c2 \<and> priv_a c2 < N \<and>
                1 < priv_A c2 \<and> priv_A c2 < N - 1))"
proof -
  let ?c1 = "c\<lparr>priv_B := Some (bufferToBigInt val)\<rparr>"
  have rej: "set_serverPublicKey random0 val c = (Inl (SRPError ServerKeyRange), ?c1)"
    using assms(4) by (intro set_serverPublicKey_rejected [OF assms(1,3)]) auto
  have nz: "bufferToBigInt val \<noteq> 0"
    using assms(4) N_gt by auto
  let ?c1s = "?c1\<lparr>priv_salt := Some salt\<rparr>"
  have ss: "set_salt random salt ?c1 = generateClientKeysIfReady random ?c1s"
    using assms(1,5) by (simp add: set_salt_def throwIfDisposed_def)
  obtain c' where g: "generateClientKeysIfReady random ?c1s = (Inr (), c')"
    and kg: "keysGenerated c'" and s: "priv_salt c' = priv_salt ?c1s"
    and b: "priv_B c' = priv_B ?c1s" and d: "disposed c' = disposed ?c1s"
    and keys: "\<not> keysGenerated ?c1s \<longrightarrow>
              priv_A c' = modPow g (priv_a c') N \<and> 0 < priv_a c' \<and> priv_a c' < N \<and>
              1 < priv_A c' \<and> priv_A c' < N - 1"
    using generateClientKeysIfReady_ready [of ?c1s i random] assms(2,6,7) nz by auto
  have ready: "isReady c'"
    using kg s b d assms(1) nz by (simp add: isReady_def)
  have kc: "keysGenerated ?c1s = keysGenerated c" and bv: "priv_B ?c1s = Some (bufferToBigInt val)"
    by simp_all
  show ?thesis
    unfolding rej ss g fst_conv snd_conv Let_def
  proof (intro conjI)
    show "priv_B ?c1 = Some (bufferToBigInt val)" by simp
    show "priv_B c' = Some (bufferToBigInt val)" using b by simp
    show "keysGenerated c'" by (rule kg)
    show "isReady c'" by (rule ready)
    show "\<not> keysGenerated c \<longrightarrow>
            priv_A c' = modPow g (priv_a c') N \<and> 0 < priv_a c' \<and> priv_a c' < N \<and>
            1 < priv_A c' \<and> priv_A c' < N - 1"
      using keys unfolding kc .
  qed simp_all
qed

text \<open>
  Witness for C9: \<open>B = 1\<close> is rejected and stored; the salt assignment then generates the
  keys from the candidate \<open>a = 2\<close> and the client reports ready.
\<close>

theorem serverPublicKey_not_atomic_witness:
  "fst (set_serverPublicKey (\<lambda>i. []) (replicate 383 0 @ [0x01]) (new_SRPClient\<lparr>password := ''1234''\<rparr>))
     = Inl (SRPError ServerKeyRange) \<and>
   priv_B (snd (set_serverPublicKey (\<lambda>i. []) (replicate 383 0 @ [0x01])
     (new_SRPClient\<lparr>password := ''1234''\<rparr>))) = Some 1 \<and>
   fst (set_salt (\<lambda>i. replicate 31 0 @ [0x02]) [0x01]
     (snd (set_serverPublicKey (\<lambda>i. []) (replicate 383 0 @ [0x01])
        (new_SRPClient\<lparr>password := ''1234''\<rparr>)))) = Inr () \<and>
   isReady (snd (set_salt (\<lambda>i. replicate 31 0 @ [0x02]) [0x01]
     (snd (set_serverPublicKey (\<lambda>i. []) (replicate 383 0 @ [0x01])
        (new_SRPClient\<lparr>password := ''1234''\<rparr>)))))"
proof -
  have b: "bufferToBigInt (replicate 383 0 @ [0x01]) = 1"
    by (simp add: bufferToBigInt_append bufferToBigInt_zeros)
  have a: "bufferToBigInt (replicate 31 0 @ [0x02]) = 2"
    by (simp add: bufferToBigInt_append bufferToBigInt_zeros)
  have v: "valid_candidate (replicate 31 0 @ [0x02])"
    using N_gt by (simp add: valid_candidate_def a modPow_nonneg N_pos g_def SRP_GENERATOR_def
        ZERO_def ONE_def N_MINUS_ONE_def)
  have h: "\<not> disposed (new_SRPClient\<lparr>password := ''1234''\<rparr>)"
    "password (new_SRPClient\<lparr>password := ''1234''\<rparr>) \<noteq> ''''"
    by (simp_all add: new_SRPClient_def)
  have l: "length (replicate 383 (0::byte) @ [0x01]) = 384" by simp
  have i: "(0::nat) < MAX_KEY_GENERATION_ATTEMPTS" by (simp add: MAX_KEY_GENERATION_ATTEMPTS_def)
  show ?thesis
    using serverPublicKey_not_atomic [of "new_SRPClient\<lparr>password := ''1234''\<rparr>"
        "replicate 383 0 @ [0x01]" "[0x01]" 0 "\<lambda>i. replicate 31 0 @ [0x02]" "\<lambda>i. []",
        OF h l _ _ i v] b
    by simp
qed

text \<open>
  Counterexample to claim C9 as stated: the 384 zero bytes encode \<open>B = 0\<close>, which is
  outside \<open>(1, N - 1)\<close>. It is rejected and stored, but \<open>0n\<close> is falsy: the later salt
  assignment succeeds without generating keys, and \<open>isReady()\<close> returns false.
\<close>

theorem serverPublicKey_zero_counterexample:
  "fst (set_serverPublicKey (\<lambda>i. replicate 31 0 @ [0x02]) (replicate 384 0)
          (new_SRPClient\<lparr>password := ''1234''\<rparr>)) = Inl (SRPError ServerKeyRange) \<and>
   priv_B (snd (set_serverPublicKey (\<lambda>i. replicate 31 0 @ [0x02]) (replicate 384 0)
          (new_SRPClient\<lparr>password := ''1234''\<rparr>))) = Some 0 \<and>
   fst (set_salt (\<lambda>i. replicate 31 0 @ [0x02]) [0x01]
     (snd (set_serverPublicKey (\<lambda>i. replicate 31 0 @ [0x02]) (replicate 384 0)
        (new_SRPClient\<lparr>password := ''1234''\<rparr>)))) = Inr () \<and>
   \<not> keysGenerated (snd (set_salt (\<lambda>i. replicate 31 0 @ [0x02]) [0x01]
     (snd (set_serverPublicKey (\<lambda>i. replicate 31 0 @ [0x02]) (replicate 384 0)
        (new_SRPClient\<lparr>password := ''1234''\<rparr>))))) \<and>
   \<not> isReady (snd (set_salt (\<lambda>i. replicate 31 0 @ [0x02]) [0x01]
     (snd (set_serverPublicKey (\<lambda>i. replicate 31 0 @ [0x02]) (replicate 384 0)
        (new_SRPClient\<lparr>password := ''1234''\<rparr>)))))"
proof -
  have h: "\<not> disposed (new_SRPClient\<lparr>password := ''1234''\<rparr>)"
    by (simp add: new_SRPClient_def)
  have rej: "set_serverPublicKey (\<lambda>i. replicate 31 0 @ [0x02]) (replicate 384 0)
          (new_SRPClient\<lparr>password := ''1234''\<rparr>) =
        (Inl (SRPError ServerKeyRange), new_SRPClient\<lparr>password := ''1234'', priv_B := Some 0\<rparr>)"
    using set_serverPublicKey_rejected [OF h, of "replicate 384 0"]
    by (simp add: bufferToBigInt_zeros)
  show ?thesis
    by (simp only: rej fst_conv snd_conv)
      (simp add: set_salt_def throwIfDisposed_def generateClientKeysIfReady_def isReady_def
        new_SRPClient_def)
qed

subsection \<open>The shared secret\<close>

lemma g_nonneg: "0 \<le> g"
  by (simp add: g_def SRP_GENERATOR_def)

lemma modPow_g: "modPow g x N = g ^ nat x mod N"
  using g_nonneg N_pos by (rule modPow_nonneg)

text \<open>
  Without the correction the power of a negative base with an odd exponent comes out of
  \<open>modPow\<close> with the sign of the base: it misses the residue by one modulus.
\<close>

lemma bigint_rem_minus: "0 \<le> q \<Longrightarrow> 0 < m \<Longrightarrow> bigint_rem (- q) m = - (q mod m)"
  by (cases "q = 0") (simp_all add: bigint_rem_def)

lemma modPow_negative_base:
  assumes "y \<le> 0" and "odd e" and "0 \<le> e" and "0 < m" and "y ^ nat e mod m \<noteq> 0"
  shows "modPow y e m = y ^ nat e mod m - m"
proof -
  define q where "q = (- y) ^ nat e"
  have on: "odd (nat e)" using assms(2,3) by (simp add: even_nat_iff)
  have pq: "y ^ nat e = - q"
    unfolding q_def using on by (metis minus_minus power_minus_odd)
  have q0: "0 \<le> q" unfolding q_def using assms(1) by simp
  have rb: "0 \<le> q mod m" "q mod m < m" using assms(4) by simp_all
  have res: "(- q) mod m = (- (q mod m)) mod m" by (simp add: mod_minus_eq)
  have nz: "(- q) mod m \<noteq> 0" using assms(5) unfolding pq .
  have r0: "q mod m \<noteq> 0" using res nz by auto
  have "(- (q mod m)) mod m = m - q mod m"
    using rb r0 assms(4) by (simp add: zmod_zminus1_eq_if)
  then have "bigint_rem (- q) m = (- q) mod m - m"
    using bigint_rem_minus [OF q0 assms(4)] res by simp
  then show ?thesis unfolding modPow_def pq .
qed

lemma computeSharedSecret_ok:
  assumes "password c \<noteq> ''''" and "priv_salt c = Some salt" and "priv_B c = Some B"
    and "B \<noteq> 0" and "priv_A c \<noteq> 0"
  shows "computeSharedSecret cu c =
     (Inr (),
      c\<lparr>priv_S := Some (((B - k cu * g ^ nat (calculateX cu salt (username c) (password c))) mod N) ^
                nat (priv_a c + calculateU cu (priv_A c) B 384 *
                       calculateX cu salt (username c) (password c)) mod N),
        priv_K := Some (hash cu (writeUIntBE 384 (nat
             (((B - k cu * g ^ nat (calculateX cu salt (username c) (password c))) mod N) ^
                nat (priv_a c + calculateU cu (priv_A c) B 384 *
                       calculateX cu salt (username c) (password c)) mod N))))\<rparr>)"
proof -
  define x where "x = calculateX cu salt (username c) (password c)"
  define u where "u = calculateU cu (priv_A c) B SRP_KEY_LENGTH_BYTES"
  define base where "base = (B - k cu * g ^ nat x) mod N"
  define S where "S = base ^ nat (priv_a c + u * x) mod N"
  have b: "bigint_rem (bigint_rem (B - bigint_rem (k cu * modPow g x N) N) N + N) N = base"
    unfolding modPow_g base_def by (rule base_residue [OF N_pos])
  have b0: "0 \<le> base" using N_pos by (simp add: base_def)
  have s: "modPow base (priv_a c + u * x) N = S"
    unfolding S_def using b0 N_pos by (rule modPow_nonneg)
  have "0 \<le> S" "S < N"
    using N_pos by (simp_all add: S_def)
  then have buf: "bigIntToBuffer S SRP_KEY_LENGTH_BYTES = Inr (writeUIntBE SRP_KEY_LENGTH_BYTES (nat S))"
    using encoded_key(1) [of S] by (simp add: SRP_KEY_LENGTH_BYTES_def)
  have "computeSharedSecret cu c =
          (Inr (), c\<lparr>priv_S := Some S,
                      priv_K := Some (hash cu (writeUIntBE SRP_KEY_LENGTH_BYTES (nat S)))\<rparr>)"
    using assms
    by (simp add: computeSharedSecret_def validateIdentitySet_def Let_def ZERO_def
        x_def [symmetric] u_def [symmetric] b s buf)
  then show ?thesis
    by (simp only: S_def base_def u_def x_def SRP_KEY_LENGTH_BYTES_def)
qed

text \<open>
  Claim C1. Take a live client with the identity set (a non-empty password), a salt, a
  valid server key \<open>1 < B < N - 1\<close>, client keys \<open>a > 0\<close> and \<open>A \<noteq> 0\<close>, and no session key
  yet; let \<open>x\<close> and \<open>u\<close> be the non-negative integers that \<open>calculateX\<close> and \<open>calculateU\<close>
  return and \<open>kgx\<close> the value the client computes for \<open>k*g^x\<close>. Then the value the client
  passes to \<open>modPow\<close>, \<open>((B - kgx) % N + N) % N\<close>, is \<open>base\<close>, the residue of \<open>B - k*g^x\<close> in
  \<open>[0, N)\<close>; the exponent \<open>a + u*x\<close> is not reduced; and \<open>modPow\<close> returns
  \<open>S = base^(a + u*x) mod N\<close>. The correction matters: when \<open>B - kgx\<close> is negative, the
  exponent odd and \<open>S\<close> not zero, \<open>modPow\<close> on the uncorrected difference, and on its plain
  signed remainder, returns \<open>S - N\<close> instead of \<open>S\<close>. The first use of \<open>sessionKey\<close>, and
  likewise of \<open>computeProof()\<close>, stores \<open>S\<close> and stores and returns \<open>K\<close>, the hash of the
  384-byte big-endian encoding of \<open>S\<close> (\<open>computeProof\<close> returns \<open>M1\<close> computed from that
  \<open>K\<close>). A later use finds \<open>K\<close> and changes nothing.
\<close>

theorem shared_secret:
  assumes live: "\<not> disposed c" and ident: "password c \<noteq> ''''"
    and salt: "priv_salt c = Some salt"
    and B: "priv_B c = Some B" and B_lo: "1 < B" and B_hi: "B < N - 1"
    and a: "0 < priv_a c" and A: "priv_A c \<noteq> 0" and first: "priv_K c = None"
    and x: "x = calculateX cu salt (username c) (password c)" and x0: "0 \<le> x"
    and u: "u = calculateU cu (priv_A c) B 384" and u0: "0 \<le> u"
    and kgx: "kgx = bigint_rem (k cu * modPow g x N) N"
    and base: "base = (B - k cu * g ^ nat x) mod N"
    and S: "S = base ^ nat (priv_a c + u * x) mod N"
    and K: "K = hash cu (writeUIntBE 384 (nat S))"
    and c': "c' = c\<lparr>priv_S := Some S, priv_K := Some K\<rparr>"
  shows "bigint_rem (bigint_rem (B - kgx) N + N) N = base \<and> 0 \<le> base \<and> base < N \<and>
         int (nat (priv_a c + u * x)) = priv_a c + u * x \<and>
         modPow base (priv_a c + u * x) N = S \<and>
         (B - kgx < 0 \<and> odd (priv_a c + u * x) \<and> S \<noteq> 0 \<longrightarrow>
            modPow (B - kgx) (priv_a c + u * x) N = S - N \<and>
            modPow (bigint_rem (B - kgx) N) (priv_a c + u * x) N = S - N) \<and>
         bigIntToBuffer S 384 = Inr (writeUIntBE 384 (nat S)) \<and>
         length (writeUIntBE 384 (nat S)) = 384 \<and>
         bufferToBigInt (writeUIntBE 384 (nat S)) = S \<and>
         get_sessionKey cu c = (Inr K, c') \<and>
         computeProof cu c = (Inr (calculateM1 cu N g (username c) salt (priv_A c) B K), c') \<and>
         get_sessionKey cu c' = (Inr K, c') \<and>
         computeProof cu c' = (Inr (calculateM1 cu N g (username c) salt (priv_A c) B K), c')"
proof -
  let ?e = "priv_a c + u * x"
  have B0: "B \<noteq> 0" using B_lo by simp
  have css: "computeSharedSecret cu c = (Inr (), c')"
    using computeSharedSecret_ok [OF ident salt B B0 A, of cu]
    by (simp only: x u base S K c')
  have fold: "bigint_rem (bigint_rem (B - kgx) N + N) N = base"
    unfolding kgx modPow_g base by (rule base_residue [OF N_pos])
  have rng: "0 \<le> base" "base < N"
    using N_pos by (simp_all add: base)
  have expo: "int (nat ?e) = ?e" and e0: "0 \<le> ?e"
    using a x0 u0 by simp_all
  have pw: "modPow base ?e N = S"
    unfolding S using rng(1) N_pos by (rule modPow_nonneg)
  have cong: "(B - kgx) mod N = base"
    using fold negative_modulo_fix [OF N_pos, of "B - kgx"] by simp
  have naive: "modPow (B - kgx) ?e N = S - N \<and> modPow (bigint_rem (B - kgx) N) ?e N = S - N"
    if neg: "B - kgx < 0" and od: "odd ?e" and nz: "S \<noteq> 0"
  proof
    have p1: "(B - kgx) ^ nat ?e mod N = S"
      unfolding S cong [symmetric] by (rule power_mod [symmetric])
    show "modPow (B - kgx) ?e N = S - N"
      using modPow_negative_base [of "B - kgx" ?e N] neg od e0 N_pos nz p1 by simp
    have r: "bigint_rem (B - kgx) N \<le> 0"
      using neg N_pos by (simp add: bigint_rem_def)
    have "bigint_rem (B - kgx) N mod N = base"
      using bigint_rem_mod [OF N_pos, of "B - kgx"] cong by simp
    then have p2: "bigint_rem (B - kgx) N ^ nat ?e mod N = S"
      unfolding S by (metis power_mod)
    show "modPow (bigint_rem (B - kgx) N) ?e N = S - N"
      using modPow_negative_base [of "bigint_rem (B - kgx) N" ?e N] r od e0 N_pos nz p2 by simp
  qed
  have Sr: "0 \<le> S" "S \<le> N"
    using N_pos by (simp_all add: S order_less_imp_le)
  note enc = encoded_key [OF Sr]
  have ok: "throwIfDisposed c = None" "validateIdentitySet c = None"
    "throwIfDisposed c' = None" "validateIdentitySet c' = None"
    using live ident by (simp_all add: throwIfDisposed_def validateIdentitySet_def c')
  have fields: "priv_K c' = Some K" "priv_salt c' = Some salt" "priv_B c' = Some B"
    "username c' = username c" "priv_A c' = priv_A c"
    using salt B by (simp_all add: c')
  have 1: "get_sessionKey cu c = (Inr K, c')"
    by (simp add: get_sessionKey_def ok first css fields)
  have 2: "computeProof cu c = (Inr (calculateM1 cu N g (username c) salt (priv_A c) B K), c')"
    using B0 by (simp add: computeProof_def ok first css fields)
  have 3: "get_sessionKey cu c' = (Inr K, c')"
    by (simp add: get_sessionKey_def ok fields)
  have 4: "computeProof cu c' = (Inr (calculateM1 cu N g (username c) salt (priv_A c) B K), c')"
    using B0 by (simp add: computeProof_def ok fields)
  show ?thesis
    using fold rng expo pw naive enc 1 2 3 4 by blast
qed

text \<open>
  On the concrete client \<open>B - k*g^x = 7 - 3 * 125 = -368\<close> is negative; it is folded to
  \<open>N - 368\<close>, and \<open>S = (N - 368)^9 mod N = N - 368^9\<close>.
\<close>

lemma small_power: "0 < (368 ^ 9 :: int)" "(368 ^ 9 :: int) < N"
  by (simp_all add: N_def SRP_PRIME_3072_def)

lemma folded_base: "(7 - 3 * 5 ^ 3) mod N = N - 368"
proof -
  have "(7 - 3 * 5 ^ 3 :: int) = - 368" by simp
  moreover have "(- 368) mod N = N - 368"
    using N_gt by (simp add: zmod_zminus1_eq_if)
  ultimately show ?thesis by simp
qed

lemma folded_secret: "(N - 368) ^ 9 mod N = N - 368 ^ 9"
proof -
  define p :: int where "p = 368 ^ 9"
  have p: "0 < p" "p < N" using small_power by (simp_all add: p_def)
  have a: "(N - 368) ^ 9 mod N = ((N - 368) mod N) ^ 9 mod N"
    by (rule power_mod [symmetric])
  have b: "(N - 368) mod N = (- 368) mod N"
    by (metis diff_conv_add_uminus mod_add_self1)
  have c: "((- 368) mod N) ^ 9 mod N = (- 368) ^ 9 mod N"
    by (rule power_mod)
  have d: "((- 368) ^ 9 :: int) = - p" by (simp add: p_def)
  have "(- p) mod N = N - p"
    using p by (simp add: zmod_zminus1_eq_if)
  then have "(N - 368) ^ 9 mod N = N - p"
    by (simp only: a b c d)
  then show ?thesis by (simp only: p_def)
qed

lemma toy_kgx: "bigint_rem (k toy_crypto * modPow g 3 N) N = 375"
proof -
  have "modPow g 3 N = g ^ nat 3 mod N" by (rule modPow_g)
  also have "\<dots> = 125" using N_gt by (simp add: g_def SRP_GENERATOR_def)
  finally have "modPow g 3 N = 125" .
  moreover have "k toy_crypto = 3" by (simp add: k_def toy_crypto_def)
  moreover have "bigint_rem 375 N = 375"
    using N_gt by (simp add: bigint_rem_pos N_pos)
  ultimately show ?thesis by simp
qed

text \<open>
  Witness for C1: the concrete client with \<open>B = 7\<close>, \<open>a = 3\<close>, \<open>k = 3\<close>, \<open>u = 2\<close>, \<open>x = 3\<close>. The
  session key is the encoding of \<open>S = N - 368^9\<close>; the same power of the unfolded base
  \<open>-368\<close> is \<open>-368^9\<close>, which is not \<open>S\<close>.
\<close>

theorem shared_secret_witness:
  "get_sessionKey toy_crypto keyed_client =
     (Inr (writeUIntBE 384 (nat (N - 368 ^ 9))),
      keyed_client\<lparr>priv_S := Some (N - 368 ^ 9),
                   priv_K := Some (writeUIntBE 384 (nat (N - 368 ^ 9)))\<rparr>) \<and>
   computeProof toy_crypto keyed_client =
     (Inr (writeUIntBE 384 (nat (N - 368 ^ 9))),
      keyed_client\<lparr>priv_S := Some (N - 368 ^ 9),
                   priv_K := Some (writeUIntBE 384 (nat (N - 368 ^ 9)))\<rparr>) \<and>
   bufferToBigInt (writeUIntBE 384 (nat (N - 368 ^ 9))) = N - 368 ^ 9 \<and>
   bigint_rem (bigint_rem (7 - 375) N + N) N = N - 368 \<and>
   modPow (N - 368) 9 N = N - 368 ^ 9 \<and>
   modPow (7 - 375) 9 N = - (368 ^ 9) \<and>
   modPow (bigint_rem (7 - 375) N) 9 N = - (368 ^ 9) \<and>
   - (368 ^ 9) \<noteq> N - 368 ^ 9"
proof -
  have h: "\<not> disposed keyed_client" "password keyed_client \<noteq> ''''"
    "priv_salt keyed_client = Some [0x01]" "priv_B keyed_client = Some 7"
    "0 < priv_a keyed_client" "priv_A keyed_client \<noteq> 0" "priv_K keyed_client = None"
    by (simp_all add: keyed_client_def)
  have r: "(1::int) < 7" "7 < N - 1" using N_gt by simp_all
  have x: "(3::int) = calculateX toy_crypto [0x01] (username keyed_client) (password keyed_client)"
    "(0::int) \<le> 3"
    by (simp_all add: toy_crypto_def)
  have u: "(2::int) = calculateU toy_crypto (priv_A keyed_client) 7 384" "(0::int) \<le> 2"
    by (simp_all add: toy_crypto_def)
  have kgx: "375 = bigint_rem (k toy_crypto * modPow g 3 N) N"
    by (rule toy_kgx [symmetric])
  have e: "priv_a keyed_client + 2 * 3 = 9" by (simp add: keyed_client_def)
  have b: "N - 368 = (7 - k toy_crypto * g ^ nat 3) mod N"
    using folded_base by (simp add: k_def toy_crypto_def g_def SRP_GENERATOR_def)
  have en: "nat (priv_a keyed_client + 2 * 3) = 9" by (simp add: keyed_client_def)
  have s: "N - 368 ^ 9 = (N - 368) ^ nat (priv_a keyed_client + 2 * 3) mod N"
    by (simp only: en folded_secret)
  have kk: "writeUIntBE 384 (nat (N - 368 ^ 9)) =
            hash toy_crypto (writeUIntBE 384 (nat (N - 368 ^ 9)))"
    by (simp add: toy_crypto_def)
  have m: "calculateM1 toy_crypto N g (username keyed_client) [0x01] (priv_A keyed_client) 7
             (writeUIntBE 384 (nat (N - 368 ^ 9))) = writeUIntBE 384 (nat (N - 368 ^ 9))"
    by (simp add: toy_crypto_def)
  have neg: "(7 - 375 :: int) < 0" "odd (9::int)" by simp_all
  have nz: "N - 368 ^ 9 \<noteq> 0" "- (368 ^ 9) \<noteq> N - 368 ^ 9"
    using small_power N_pos by simp_all
  have sn: "N - 368 ^ 9 - N = - (368 ^ 9)" by simp
  note t = shared_secret [OF h(1,2,3,4) r h(5,6,7) x u kgx b s kk refl, unfolded e m sn]
  show ?thesis
    using t neg nz by blast
qed

end
